theory Spec2Isabelle
  imports Main "HOL-Library.Sublist" "HOL-Library.Word"
begin

section \<open>C strings\<close>

text \<open>
  A C buffer is a list of bytes. The string functions of libc read it up to the first
  NUL byte, so each of them works on \<open>c_str buf\<close>. The servers store a NUL after the
  bytes they received, which is the end of the list here.
\<close>

definition c_str :: "string \<Rightarrow> string" where
  "c_str buf = takeWhile (\<lambda>c. c \<noteq> CHR 0x00) buf"

text \<open>\<open>strstr\<close>: the index of the first occurrence of the needle, \<open>None\<close> for NULL.\<close>

fun strstr :: "string \<Rightarrow> string \<Rightarrow> nat option" where
  "strstr [] nd = (if nd = [] then Some 0 else None)"
| "strstr (h # hs) nd =
     (if prefix nd (h # hs) then Some 0 else map_option Suc (strstr hs nd))"

text \<open>\<open>strchr\<close>: the index of the first occurrence of the character.\<close>

fun strchr :: "string \<Rightarrow> char \<Rightarrow> nat option" where
  "strchr [] ch = None"
| "strchr (h # hs) ch = (if h = ch then Some 0 else map_option Suc (strchr hs ch))"

definition CRLFCRLF :: string where
  "CRLFCRLF = [CHR 0x0D, CHR 0x0A, CHR 0x0D, CHR 0x0A]"

definition CRLF :: string where
  "CRLF = [CHR 0x0D, CHR 0x0A]"

text \<open>\<open>tolower\<close> in the C locale, as \<open>strcasecmp\<close> applies it to both sides.\<close>

definition tolower :: "char \<Rightarrow> char" where
  "tolower c =
     (if (65::nat) \<le> of_char c \<and> of_char c \<le> (90::nat)
      then char_of (of_char c + (32::nat)) else c)"

definition strcasecmp_eq :: "string \<Rightarrow> string \<Rightarrow> bool" where
  "strcasecmp_eq a b = (map tolower a = map tolower b)"

text \<open>The decimal text that \<open>snprintf\<close> writes for \<open>%lld\<close> and \<open>%zu\<close>.\<close>

fun dec_nat :: "nat \<Rightarrow> string" where
  "dec_nat n =
     (if n < 10 then [char_of (48 + n)]
      else dec_nat (n div 10) @ [char_of (48 + n mod 10)])"

declare dec_nat.simps [simp del]

definition dec_int :: "int \<Rightarrow> string" where
  "dec_int i = (if i < 0 then CHR ''-'' # dec_nat (nat (- i)) else dec_nat (nat i))"

section \<open>http.c\<close>

text \<open>
  \<open>http_req_t\<close> of http.h: \<open>char method[8]; char path[1024]; int complete\<close>.
  The field \<open>method\<close> is \<open>req_method\<close> here.
\<close>

record http_req_t =
  req_method :: string
  path :: string
  complete :: int

definition path_field_size :: nat where
  "path_field_size = 1024"

definition zero_req :: http_req_t where
  "zero_req = \<lparr>req_method = [], path = [], complete = 0\<rparr>"

text \<open>
  \<open>http_parse_request(buf, len, out)\<close>: the return value (1 parsed, 0 incomplete,
  -1 invalid) and \<open>*out\<close>. \<open>buf\<close> is never NULL in the servers. The loop that skips
  spaces after the method runs from index 4 while it is below \<open>header_end\<close> and reads a
  space.
\<close>

definition http_parse_request :: "string \<Rightarrow> nat \<Rightarrow> int \<times> http_req_t" where
  "http_parse_request buf len =
     (if len = 0 then (-1, zero_req)
      else
        let s = c_str buf in
        case strstr s CRLFCRLF of
          None \<Rightarrow> (0, zero_req)
        | Some header_end \<Rightarrow>
            let out = zero_req\<lparr>complete := 1\<rparr> in
            if len < 14 \<or> take 4 s \<noteq> ''GET '' then (-1, out)
            else
              let out = out\<lparr>req_method := ''GET''\<rparr>;
                  path_start =
                    4 + length (takeWhile (\<lambda>c. c = CHR '' '') (take (header_end - 4) (drop 4 s)))
              in
              if path_start \<ge> header_end then (-1, out)
              else
                case strchr (drop path_start s) CHR '' '' of
                  None \<Rightarrow> (-1, out)
                | Some k \<Rightarrow>
                    let path_end = path_start + k in
                    if path_end > header_end then (-1, out)
                    else
                      let path_len = path_end - path_start in
                      if path_len = 0 \<or> path_len \<ge> path_field_size then (-1, out)
                      else
                        let p = take path_len (drop path_start s) in
                        (1, out\<lparr>path := (if p = ''/'' then ''/index.html'' else p)\<rparr>))"

text \<open>\<open>http_guess_type\<close>: the extension is compared without regard to case.\<close>

definition has_ext :: "string \<Rightarrow> string \<Rightarrow> bool" where
  "has_ext p ext =
     (length p \<ge> length ext \<and> strcasecmp_eq (drop (length p - length ext) p) ext)"

definition http_guess_type :: "string \<Rightarrow> string" where
  "http_guess_type p =
     (if has_ext p ''.html'' then ''text/html''
      else if has_ext p ''.css'' then ''text/css''
      else if has_ext p ''.js'' then ''application/javascript''
      else if has_ext p ''.png'' then ''image/png''
      else if has_ext p ''.jpg'' then ''image/jpeg''
      else if has_ext p ''.gif'' then ''image/gif''
      else ''application/octet-stream'')"

text \<open>
  \<open>http_build_200\<close> and \<open>http_build_404\<close>: \<open>None\<close> is the return value -1, \<open>Some s\<close>
  the text written, whose length is the return value.
\<close>

definition http_build_200 :: "nat \<Rightarrow> int \<Rightarrow> string \<Rightarrow> string option" where
  "http_build_200 cap content_len ctype =
     (if cap = 0 then None
      else
        let s = ''HTTP/1.1 200 OK'' @ CRLF
              @ ''Content-Length: '' @ dec_int content_len @ CRLF
              @ ''Content-Type: '' @ ctype @ CRLF
              @ ''Cache-Control: no-cache'' @ CRLF
              @ ''Connection: close'' @ CRLF @ CRLF
        in if length s \<ge> cap then None else Some s)"

definition http_build_404 :: "nat \<Rightarrow> string option" where
  "http_build_404 cap =
     (if cap = 0 then None
      else
        let body = ''Not Found'';
            s = ''HTTP/1.1 404 Not Found'' @ CRLF
              @ ''Content-Length: '' @ dec_nat (length body) @ CRLF
              @ ''Content-Type: text/plain'' @ CRLF
              @ ''Connection: close'' @ CRLF @ CRLF @ body
        in if length s \<ge> cap then None else Some s)"

text \<open>
  \<open>http_safe_join(out, outsz, root, rel)\<close>. \<open>realpath\<close> is the C library's, a
  parameter here (\<open>None\<close> when it returns NULL), and so is the constant \<open>PATH_MAX\<close> of
  limits.h. \<open>None\<close> is the return value -1, \<open>Some p\<close> the path written to \<open>out\<close> with
  the return value 0. \<open>strncmp(resolved, root_real, strlen(root_real))\<close> compares the
  first \<open>strlen(root_real)\<close> bytes.
\<close>

definition http_safe_join ::
  "(string \<Rightarrow> string option) \<Rightarrow> nat \<Rightarrow> nat \<Rightarrow> string \<Rightarrow> string \<Rightarrow> string option" where
  "http_safe_join realpath path_max outsz root rel =
     (if outsz = 0 then None
      else
        let clean_rel = (case rel of [] \<Rightarrow> rel | c # cs \<Rightarrow> if c = CHR ''/'' then cs else rel);
            clean_rel = (if length clean_rel = 0 then ''index.html'' else clean_rel);
            temp_path = root @ ''/'' @ clean_rel
        in
        if length temp_path \<ge> path_max then None
        else
          case realpath temp_path of
            None \<Rightarrow>
              if length root \<ge> path_max then None
              else
                (case realpath root of
                   None \<Rightarrow> None
                 | Some resolved \<Rightarrow>
                     let out = resolved @ ''/'' @ clean_rel in
                     if length out \<ge> outsz then None else Some out)
          | Some resolved \<Rightarrow>
              (case realpath root of
                 None \<Rightarrow> None
               | Some root_real \<Rightarrow>
                   if take (length root_real) resolved \<noteq> root_real then None
                   else if length resolved \<ge> outsz then None
                   else Some resolved))"

section \<open>The operating system, as the servers see it\<close>

text \<open>
  The filesystem, \<open>malloc\<close> and \<open>kevent\<close> are parameters of the model. Within one
  handler call each answers the same way every time it is asked.
  \<open>os_open\<close> is \<open>open(path, O_RDONLY)\<close>, negative on failure; \<open>os_pread fd count off\<close>
  gives the bytes read (at most \<open>count\<close> are used), \<open>None\<close> for -1.
\<close>

record stat_t =
  st_is_reg :: bool
  st_size :: int

record os =
  os_realpath :: "string \<Rightarrow> string option"
  os_path_max :: nat
  os_stat :: "string \<Rightarrow> stat_t option"
  os_open :: "string \<Rightarrow> int"
  os_fstat :: "int \<Rightarrow> stat_t option"
  os_pread :: "int \<Rightarrow> nat \<Rightarrow> int \<Rightarrow> string option"
  os_malloc_ok :: bool
  os_kevent_ok :: bool

text \<open>
  The sockets: what successive \<open>recv\<close> and \<open>send\<close> calls will answer, consumed in
  call order, and the log of the calls made. \<open>Recvd d\<close> delivers the bytes \<open>d\<close> (the
  empty list is the orderly close of the peer, return value 0); \<open>Sent k\<close> accepts up to
  \<open>k\<close> bytes; \<open>RecvAgain\<close> and \<open>SendAgain\<close> are -1 with \<open>EAGAIN\<close>, and so is a call
  with no answer left; \<open>RecvError\<close> and \<open>SendError\<close> are -1 with another \<open>errno\<close>.
\<close>

datatype recv_result = Recvd string | RecvAgain | RecvError

datatype send_result = Sent nat | SendAgain | SendError

text \<open>
  A log entry holds the descriptor, for \<open>send\<close> the bytes offered, the return value and
  whether \<open>errno\<close> was \<open>EAGAIN\<close>.
\<close>

datatype io_event = IoRecv int int bool | IoSend int string int bool | IoClose int

record net =
  recvq :: "recv_result list"
  sendq :: "send_result list"
  log :: "io_event list"

definition sys_recv :: "net \<Rightarrow> int \<Rightarrow> nat \<Rightarrow> (int \<times> bool \<times> string) \<times> net" where
  "sys_recv nt sock len =
     (case recvq nt of
        [] \<Rightarrow> ((-1, True, []), nt\<lparr>log := log nt @ [IoRecv sock (-1) True]\<rparr>)
      | r # rs \<Rightarrow>
          (case r of
             Recvd d \<Rightarrow>
               let got = take len d in
               ((int (length got), False, got),
                nt\<lparr>recvq := rs, log := log nt @ [IoRecv sock (int (length got)) False]\<rparr>)
           | RecvAgain \<Rightarrow>
               ((-1, True, []), nt\<lparr>recvq := rs, log := log nt @ [IoRecv sock (-1) True]\<rparr>)
           | RecvError \<Rightarrow>
               ((-1, False, []), nt\<lparr>recvq := rs, log := log nt @ [IoRecv sock (-1) False]\<rparr>)))"

definition sys_send :: "net \<Rightarrow> int \<Rightarrow> string \<Rightarrow> (int \<times> bool) \<times> net" where
  "sys_send nt sock bytes =
     (case sendq nt of
        [] \<Rightarrow> ((-1, True), nt\<lparr>log := log nt @ [IoSend sock bytes (-1) True]\<rparr>)
      | r # rs \<Rightarrow>
          (case r of
             Sent k \<Rightarrow>
               let n = int (min k (length bytes)) in
               ((n, False), nt\<lparr>sendq := rs, log := log nt @ [IoSend sock bytes n False]\<rparr>)
           | SendAgain \<Rightarrow>
               ((-1, True), nt\<lparr>sendq := rs, log := log nt @ [IoSend sock bytes (-1) True]\<rparr>)
           | SendError \<Rightarrow>
               ((-1, False), nt\<lparr>sendq := rs, log := log nt @ [IoSend sock bytes (-1) False]\<rparr>)))"

definition sys_close :: "net \<Rightarrow> int \<Rightarrow> net" where
  "sys_close nt d = nt\<lparr>log := log nt @ [IoClose d]\<rparr>"

text \<open>The bytes a descriptor's peer has received: what each \<open>send\<close> accepted, in order.\<close>

fun wire :: "int \<Rightarrow> io_event list \<Rightarrow> string" where
  "wire sock [] = []"
| "wire sock (IoSend d bytes n ea # es) =
     (if d = sock \<and> n > 0 then take (nat n) bytes @ wire sock es else wire sock es)"
| "wire sock (e # es) = wire sock es"

section \<open>kqueue\_server.c\<close>

definition kMaxConnections :: nat where "kMaxConnections = 50000"
definition kRequestBufferSize :: nat where "kRequestBufferSize = 4096"
definition kResponseBufferSize :: nat where "kResponseBufferSize = 32768"
definition kPathBufferSize :: nat where "kPathBufferSize = 1024"
definition kHeaderBufferSize :: nat where "kHeaderBufferSize = 512"

datatype ConnectionState =
    STATE_READING_REQUEST
  | STATE_PROCESSING
  | STATE_SENDING_HEADER
  | STATE_SENDING_FILE
  | STATE_CLOSING

text \<open>
  A \<open>Connection *\<close> is the index of the record in \<open>server->connections\<close>; NULL is
  \<open>None\<close>; the field \<open>next\<close> is \<open>next_conn\<close> here. A buffer pointer is \<open>None\<close>
  while NULL, else the bytes written to the buffer:
  the request buffer holds the \<open>request_size\<close> bytes received so far.
\<close>

record Connection =
  fd :: int
  state :: ConnectionState
  request_buffer :: "string option"
  request_size :: nat
  request_capacity :: nat
  response_buffer :: "string option"
  response_size :: nat
  response_sent :: nat
  file_fd :: int
  file_offset :: int
  file_size :: int
  next_conn :: "nat option"

record Server =
  kq :: int
  listen_fd :: int
  doc_root :: string
  connections :: "Connection list"
  free_list :: "nat option"
  num_active :: int
  total_requests :: "64 word"
  total_bytes_sent :: "64 word"
  total_connections :: "64 word"

definition buf_bytes :: "string option \<Rightarrow> string" where
  "buf_bytes b = (case b of None \<Rightarrow> [] | Some bs \<Rightarrow> bs)"

definition reset_connection :: "Connection \<Rightarrow> Connection" where
  "reset_connection conn =
     conn\<lparr>state := STATE_READING_REQUEST, request_size := 0, response_size := 0,
          response_sent := 0, file_fd := -1, file_offset := 0, file_size := 0\<rparr>"

definition alloc_connection :: "Server \<Rightarrow> nat option \<times> Server" where
  "alloc_connection server =
     (case free_list server of
        None \<Rightarrow> (None, server)
      | Some ci \<Rightarrow>
          let conn = connections server ! ci;
              server = server\<lparr>free_list := next_conn conn\<rparr>;
              conn = conn\<lparr>next_conn := None\<rparr>;
              conn = reset_connection conn
          in (Some ci,
              server\<lparr>connections := (connections server)[ci := conn],
                     num_active := num_active server + 1,
                     total_connections := total_connections server + 1\<rparr>))"

definition free_connection :: "Server \<Rightarrow> nat \<Rightarrow> net \<Rightarrow> Server \<times> net" where
  "free_connection server ci nt =
     (let conn = connections server ! ci;
          (conn, nt) =
            (if fd conn \<ge> 0 then (conn\<lparr>fd := -1\<rparr>, sys_close nt (fd conn)) else (conn, nt));
          (conn, nt) =
            (if file_fd conn \<ge> 0 then (conn\<lparr>file_fd := -1\<rparr>, sys_close nt (file_fd conn))
             else (conn, nt));
          conn = conn\<lparr>next_conn := free_list server\<rparr>
      in (server\<lparr>connections := (connections server)[ci := conn],
                 free_list := Some ci,
                 num_active := num_active server - 1\<rparr>, nt))"

text \<open>\<open>close_connection\<close> deletes the two kqueue filters, then frees the connection.\<close>

definition close_connection :: "Server \<Rightarrow> nat \<Rightarrow> net \<Rightarrow> Server \<times> net" where
  "close_connection server ci nt = free_connection server ci nt"

text \<open>
  The start of \<open>run_kqueue_server\<close>: \<open>calloc\<close> zeroes the records, the loop links record
  \<open>i\<close> to record \<open>i + 1\<close> and sets \<open>fd\<close> to -1. The pool has \<open>n\<close> records;
  the program runs it with \<open>n = kMaxConnections\<close>.
\<close>

definition zero_connection :: Connection where
  "zero_connection =
     \<lparr>fd = 0, state = STATE_READING_REQUEST, request_buffer = None, request_size = 0,
      request_capacity = 0, response_buffer = None, response_size = 0, response_sent = 0,
      file_fd = 0, file_offset = 0, file_size = 0, next_conn = None\<rparr>"

definition init_server :: "nat \<Rightarrow> int \<Rightarrow> int \<Rightarrow> string \<Rightarrow> Server" where
  "init_server n kqd lfd root =
     \<lparr>kq = kqd, listen_fd = lfd, doc_root = root,
      connections =
        map (\<lambda>i. zero_connection\<lparr>fd := -1, next_conn := (if i + 1 < n then Some (i + 1) else None)\<rparr>)
          [0..<n],
      free_list = Some 0, num_active = 0,
      total_requests = 0, total_bytes_sent = 0, total_connections = 0\<rparr>"

text \<open>
  \<open>prepare_error_response\<close>: the return value and the connection. The texts of 400,
  413 and 500 are the format strings of the source, which have no conversions.
\<close>

definition error_400 :: string where
  "error_400 = ''HTTP/1.1 400 Bad Request'' @ CRLF @ ''Content-Length: 11'' @ CRLF
     @ ''Connection: close'' @ CRLF @ CRLF @ ''Bad Request''"

definition error_413 :: string where
  "error_413 = ''HTTP/1.1 413 Request Entity Too Large'' @ CRLF @ ''Content-Length: 18'' @ CRLF
     @ ''Connection: close'' @ CRLF @ CRLF @ ''Request Too Large''"

definition error_500 :: string where
  "error_500 = ''HTTP/1.1 500 Internal Server Error'' @ CRLF @ ''Content-Length: 21'' @ CRLF
     @ ''Connection: close'' @ CRLF @ CRLF @ ''Internal Server Error''"

text \<open>
  The \<open>switch\<close>: the text of the response, \<open>None\<close> where the function returns -1
  (the \<open>default\<close> case, and \<open>http_build_404\<close> returning -1, which fails the check of
  \<open>response_len\<close> that follows).
\<close>

definition error_response_text :: "int \<Rightarrow> string option" where
  "error_response_text status_code =
     (if status_code = 400 then Some error_400
      else if status_code = 404 then http_build_404 kHeaderBufferSize
      else if status_code = 413 then Some error_413
      else if status_code = 500 then Some error_500
      else None)"

definition prepare_error_response :: "os \<Rightarrow> Connection \<Rightarrow> int \<Rightarrow> int \<times> Connection" where
  "prepare_error_response os conn status_code =
     (case error_response_text status_code of
        None \<Rightarrow> (-1, conn)
      | Some text \<Rightarrow>
          if length text = 0 \<or> length text \<ge> kHeaderBufferSize then (-1, conn)
          else if response_buffer conn = None \<and> \<not> os_malloc_ok os then (-1, conn)
          else
            let conn = conn\<lparr>response_buffer := Some text, response_size := length text,
                            response_sent := 0, state := STATE_SENDING_HEADER\<rparr>
            in if \<not> os_kevent_ok os then (-1, conn) else (0, conn))"

definition prepare_file_response ::
  "os \<Rightarrow> Connection \<Rightarrow> string \<Rightarrow> net \<Rightarrow> int \<times> Connection \<times> net" where
  "prepare_file_response os conn file_path nt =
     (let conn = conn\<lparr>file_fd := os_open os file_path\<rparr> in
      if file_fd conn < 0 then (-1, conn, nt)
      else
        case os_fstat os (file_fd conn) of
          None \<Rightarrow> (-1, conn\<lparr>file_fd := -1\<rparr>, sys_close nt (file_fd conn))
        | Some st \<Rightarrow>
            let conn = conn\<lparr>file_size := st_size st, file_offset := 0\<rparr> in
            case http_build_200 kHeaderBufferSize (st_size st) (http_guess_type file_path) of
              None \<Rightarrow> (-1, conn\<lparr>file_fd := -1\<rparr>, sys_close nt (file_fd conn))
            | Some header \<Rightarrow>
                if response_buffer conn = None \<and> \<not> os_malloc_ok os
                then (-1, conn\<lparr>file_fd := -1\<rparr>, sys_close nt (file_fd conn))
                else
                  let conn = conn\<lparr>response_buffer := Some header,
                                  response_size := length header,
                                  response_sent := 0, state := STATE_SENDING_HEADER\<rparr>
                  in if \<not> os_kevent_ok os then (-1, conn, nt) else (0, conn, nt))"

text \<open>
  \<open>process_request\<close> always returns 0, so the model returns the server, the connection
  and the sockets only.
\<close>

definition process_request ::
  "os \<Rightarrow> Server \<Rightarrow> Connection \<Rightarrow> net \<Rightarrow> Server \<times> Connection \<times> net" where
  "process_request os server conn nt =
     (let (rc, request) =
            http_parse_request (buf_bytes (request_buffer conn)) (request_size conn)
      in
      if rc \<le> 0 then (server, snd (prepare_error_response os conn 400), nt)
      else
        case http_safe_join (os_realpath os) (os_path_max os) kPathBufferSize
               (doc_root server) (path request) of
          None \<Rightarrow> (server, snd (prepare_error_response os conn 404), nt)
        | Some file_path \<Rightarrow>
            (case os_stat os file_path of
               None \<Rightarrow> (server, snd (prepare_error_response os conn 404), nt)
             | Some st \<Rightarrow>
                 if \<not> st_is_reg st then (server, snd (prepare_error_response os conn 404), nt)
                 else
                   let (r, conn, nt) = prepare_file_response os conn file_path nt in
                   if r < 0 then (server, snd (prepare_error_response os conn 500), nt)
                   else (server\<lparr>total_requests := total_requests server + 1\<rparr>, conn, nt)))"

text \<open>
  \<open>handle_read_event\<close>. \<open>request_size\<close> stays below \<open>request_capacity\<close>, so the
  subtraction of the \<open>size_t\<close> values does not wrap.
\<close>

definition handle_read_event ::
  "os \<Rightarrow> Server \<Rightarrow> Connection \<Rightarrow> net \<Rightarrow> int \<times> Server \<times> Connection \<times> net" where
  "handle_read_event os server conn nt =
     (if state conn \<noteq> STATE_READING_REQUEST then (0, server, conn, nt)
      else
        let ((n, eagain, got), nt) =
              sys_recv nt (fd conn) (request_capacity conn - request_size conn - 1)
        in
        if n \<le> 0 then
          (if n < 0 \<and> eagain then (0, server, conn, nt) else (-1, server, conn, nt))
        else
          let conn = conn\<lparr>request_buffer :=
                            Some (take (request_size conn) (buf_bytes (request_buffer conn)) @ got),
                          request_size := request_size conn + nat n\<rparr>
          in
          if strstr (c_str (buf_bytes (request_buffer conn))) CRLFCRLF \<noteq> None then
            (let (server, conn, nt) = process_request os server conn nt
             in (0, server, conn, nt))
          else if request_size conn \<ge> request_capacity conn - 1 then
            (0, server, snd (prepare_error_response os conn 413), nt)
          else (0, server, conn, nt))"

text \<open>
  \<open>send_response\<close>, in its two blocks. The first gives \<open>Some rc\<close> where the source
  returns \<open>rc\<close> from inside the block, \<open>None\<close> where control reaches the second block.
  \<open>file_offset\<close> never passes \<open>file_size\<close>, so \<open>to_read\<close> is not negative.
\<close>

definition send_response_header :: "Connection \<Rightarrow> net \<Rightarrow> int option \<times> Connection \<times> net" where
  "send_response_header conn nt =
     (if state conn = STATE_SENDING_HEADER then
        let ((n, eagain), nt) =
              sys_send nt (fd conn)
                (take (response_size conn - response_sent conn)
                   (drop (response_sent conn) (buf_bytes (response_buffer conn))))
        in
        if n \<le> 0 then
          (if n < 0 \<and> eagain then (Some 0, conn, nt) else (Some (-1), conn, nt))
        else
          let conn = conn\<lparr>response_sent := response_sent conn + nat n\<rparr> in
          if response_sent conn \<ge> response_size conn then
            (if file_fd conn \<ge> 0
             then (None, conn\<lparr>state := STATE_SENDING_FILE, response_sent := 0\<rparr>, nt)
             else (Some (-1), conn, nt))
          else (None, conn, nt)
      else (None, conn, nt))"

definition send_response_file :: "os \<Rightarrow> Connection \<Rightarrow> net \<Rightarrow> int \<times> Connection \<times> net" where
  "send_response_file os conn nt =
     (if state conn = STATE_SENDING_FILE \<and> file_fd conn \<ge> 0 then
        let to_read =
              (if file_offset conn + int kResponseBufferSize > file_size conn
               then file_size conn - file_offset conn else int kResponseBufferSize)
        in
        if to_read = 0 then (-1, conn, nt)
        else
          case os_pread os (file_fd conn) (nat to_read) (file_offset conn) of
            None \<Rightarrow> (-1, conn, nt)
          | Some bytes \<Rightarrow>
              let chunk = take (nat to_read) bytes in
              if length chunk = 0 then (-1, conn, nt)
              else
                let conn = conn\<lparr>response_buffer := Some chunk\<rparr>;
                    ((sent, eagain), nt) = sys_send nt (fd conn) chunk
                in
                if sent \<le> 0 then
                  (if sent < 0 \<and> eagain then (0, conn, nt) else (-1, conn, nt))
                else
                  let conn = conn\<lparr>file_offset := file_offset conn + sent\<rparr> in
                  if file_offset conn \<ge> file_size conn then (-1, conn, nt) else (0, conn, nt)
      else (0, conn, nt))"

definition send_response :: "os \<Rightarrow> Connection \<Rightarrow> net \<Rightarrow> int \<times> Connection \<times> net" where
  "send_response os conn nt =
     (case send_response_header conn nt of
        (Some rc, conn, nt) \<Rightarrow> (rc, conn, nt)
      | (None, conn, nt) \<Rightarrow> send_response_file os conn nt)"

definition handle_write_event ::
  "os \<Rightarrow> Server \<Rightarrow> Connection \<Rightarrow> net \<Rightarrow> int \<times> Server \<times> Connection \<times> net" where
  "handle_write_event os server conn nt =
     (if state conn = STATE_SENDING_HEADER \<or> state conn = STATE_SENDING_FILE then
        (let (rc, conn, nt) = send_response os conn nt in (rc, server, conn, nt))
      else (0, server, conn, nt))"

text \<open>
  \<open>accept_connections\<close>: the loop calls \<open>accept\<close> until it fails. The argument is the
  list of the descriptors the successive calls return; a negative one, or the end of the
  list, is the failing call that leaves the loop. The return value is always 0.
\<close>

fun accept_connections :: "os \<Rightarrow> int list \<Rightarrow> Server \<times> net \<Rightarrow> Server \<times> net" where
  "accept_connections os [] (server, nt) = (server, nt)"
| "accept_connections os (sock # pending) (server, nt) =
     (if sock < 0 then (server, nt)
      else
        case alloc_connection server of
          (None, server) \<Rightarrow> accept_connections os pending (server, sys_close nt sock)
        | (Some ci, server) \<Rightarrow>
            let conn = (connections server ! ci)\<lparr>fd := sock\<rparr>;
                server = server\<lparr>connections := (connections server)[ci := conn]\<rparr>
            in
            if request_buffer conn = None \<and> \<not> os_malloc_ok os then
              accept_connections os pending (free_connection server ci (sys_close nt sock))
            else
              let conn = (if request_buffer conn = None
                          then conn\<lparr>request_buffer := Some [],
                                    request_capacity := kRequestBufferSize\<rparr>
                          else conn);
                  server = server\<lparr>connections := (connections server)[ci := conn]\<rparr>
              in
              if \<not> os_kevent_ok os
              then accept_connections os pending (close_connection server ci nt)
              else accept_connections os pending (server, nt))"

text \<open>
  The body of the event loop for one event of a client socket: the handler of the
  filter, then \<open>close_connection\<close> when it returns a negative value.
\<close>

datatype kfilter = EVFILT_READ | EVFILT_WRITE

definition client_event :: "os \<Rightarrow> kfilter \<Rightarrow> nat \<Rightarrow> Server \<times> net \<Rightarrow> Server \<times> net" where
  "client_event os flt ci sn =
     (let (server, nt) = sn;
          conn = connections server ! ci;
          (rc, server, conn, nt) =
            (case flt of
               EVFILT_READ \<Rightarrow> handle_read_event os server conn nt
             | EVFILT_WRITE \<Rightarrow> handle_write_event os server conn nt);
          server = server\<lparr>connections := (connections server)[ci := conn]\<rparr>
      in if rc < 0 then close_connection server ci nt else (server, nt))"

section \<open>aio\_server.c\<close>

text \<open>
  The select-based server. Its names that the kqueue server also uses carry the prefix
  \<open>aio_\<close> (constants, functions), \<open>AIO_\<close> (states) or \<open>a_\<close> (fields).
  \<open>request_buffer\<close> is an array inside the record; the model holds the bytes received,
  the rest of the array being the zeroes of \<open>reset_client\<close>.
\<close>

definition kMaxClients :: nat where "kMaxClients = 100"
definition aio_kRequestBufferSize :: nat where "aio_kRequestBufferSize = 8192"
definition aio_kResponseBufferSize :: nat where "aio_kResponseBufferSize = 65536"
definition aio_kPathBufferSize :: nat where "aio_kPathBufferSize = 2048"
definition aio_kHeaderBufferSize :: nat where "aio_kHeaderBufferSize = 512"

datatype ClientState =
    AIO_STATE_READING_REQUEST
  | AIO_STATE_SENDING_RESPONSE
  | AIO_STATE_CLOSING

record Client =
  a_fd :: int
  a_state :: ClientState
  a_request_buffer :: string
  a_request_size :: nat
  a_response_buffer :: "string option"
  a_response_size :: nat
  a_response_sent :: nat
  a_file_fd :: int
  a_file_offset :: int
  a_file_size :: int

record AioServer =
  a_listen_fd :: int
  a_doc_root :: string
  clients :: "Client list"
  num_clients :: int
  a_total_requests :: "64 word"
  a_total_bytes_sent :: "64 word"

definition reset_client :: "Client \<Rightarrow> Client" where
  "reset_client client =
     client\<lparr>a_fd := -1, a_state := AIO_STATE_READING_REQUEST, a_request_size := 0,
            a_response_buffer := None, a_response_size := 0, a_response_sent := 0,
            a_file_fd := -1, a_file_offset := 0, a_file_size := 0, a_request_buffer := []\<rparr>"

definition close_client :: "Client \<Rightarrow> net \<Rightarrow> Client \<times> net" where
  "close_client client nt =
     (let (client, nt) =
            (if a_fd client \<ge> 0 then (client\<lparr>a_fd := -1\<rparr>, sys_close nt (a_fd client))
             else (client, nt));
          (client, nt) =
            (if a_file_fd client \<ge> 0
             then (client\<lparr>a_file_fd := -1\<rparr>, sys_close nt (a_file_fd client))
             else (client, nt));
          client = (if a_response_buffer client \<noteq> None
                    then client\<lparr>a_response_buffer := None\<rparr> else client)
      in (reset_client client, nt))"

definition zero_client :: Client where
  "zero_client =
     \<lparr>a_fd = 0, a_state = AIO_STATE_READING_REQUEST, a_request_buffer = [],
      a_request_size = 0, a_response_buffer = None, a_response_size = 0,
      a_response_sent = 0, a_file_fd = 0, a_file_offset = 0, a_file_size = 0\<rparr>"

text \<open>The start of \<open>run_aio_server\<close>, with \<open>n\<close> client slots (\<open>kMaxClients\<close> in the program).\<close>

definition aio_init_server :: "nat \<Rightarrow> int \<Rightarrow> string \<Rightarrow> AioServer" where
  "aio_init_server n lfd root =
     \<lparr>a_listen_fd = lfd, a_doc_root = root,
      clients = replicate n (reset_client zero_client),
      num_clients = 0, a_total_requests = 0, a_total_bytes_sent = 0\<rparr>"

text \<open>The scan for a free slot: the first index whose \<open>fd\<close> is negative.\<close>

fun find_free_slot :: "Client list \<Rightarrow> nat option" where
  "find_free_slot [] = None"
| "find_free_slot (c # cs) =
     (if a_fd c < 0 then Some 0 else map_option Suc (find_free_slot cs))"

fun accept_new_clients :: "int list \<Rightarrow> AioServer \<times> net \<Rightarrow> AioServer \<times> net" where
  "accept_new_clients [] (server, nt) = (server, nt)"
| "accept_new_clients (client_fd # pending) (server, nt) =
     (if client_fd < 0 then (server, nt)
      else
        case find_free_slot (clients server) of
          None \<Rightarrow> accept_new_clients pending (server, sys_close nt client_fd)
        | Some i \<Rightarrow>
            let client = reset_client (clients server ! i);
                client = client\<lparr>a_fd := client_fd, a_state := AIO_STATE_READING_REQUEST\<rparr>
            in accept_new_clients pending
                 (server\<lparr>clients := (clients server)[i := client],
                         num_clients := num_clients server + 1\<rparr>, nt))"

definition aio_error_400 :: string where
  "aio_error_400 = ''HTTP/1.1 400 Bad Request'' @ CRLF @ ''Content-Length: 11'' @ CRLF
     @ ''Content-Type: text/plain'' @ CRLF @ ''Connection: close'' @ CRLF @ CRLF
     @ ''Bad Request''"

definition aio_error_500 :: string where
  "aio_error_500 = ''HTTP/1.1 500 Internal Server Error'' @ CRLF @ ''Content-Length: 21'' @ CRLF
     @ ''Content-Type: text/plain'' @ CRLF @ ''Connection: close'' @ CRLF @ CRLF
     @ ''Internal Server Error''"

definition aio_error_default :: string where
  "aio_error_default = ''HTTP/1.1 500 Internal Server Error'' @ CRLF @ ''Content-Length: 5'' @ CRLF
     @ ''Connection: close'' @ CRLF @ CRLF @ ''Error''"

definition aio_error_response_text :: "int \<Rightarrow> string option" where
  "aio_error_response_text status_code =
     (if status_code = 400 then Some aio_error_400
      else if status_code = 404 then http_build_404 aio_kHeaderBufferSize
      else if status_code = 500 then Some aio_error_500
      else Some aio_error_default)"

definition aio_prepare_error_response :: "os \<Rightarrow> Client \<Rightarrow> int \<Rightarrow> net \<Rightarrow> Client \<times> net" where
  "aio_prepare_error_response os client status_code nt =
     (case aio_error_response_text status_code of
        None \<Rightarrow> close_client client nt
      | Some text \<Rightarrow>
          if length text = 0 \<or> length text \<ge> aio_kHeaderBufferSize then close_client client nt
          else if \<not> os_malloc_ok os then close_client client nt
          else (client\<lparr>a_response_buffer := Some text, a_response_size := length text,
                       a_response_sent := 0, a_state := AIO_STATE_SENDING_RESPONSE\<rparr>, nt))"

definition aio_prepare_file_response ::
  "os \<Rightarrow> Client \<Rightarrow> string \<Rightarrow> net \<Rightarrow> Client \<times> net" where
  "aio_prepare_file_response os client file_path nt =
     (let client = client\<lparr>a_file_fd := os_open os file_path\<rparr> in
      if a_file_fd client < 0 then aio_prepare_error_response os client 500 nt
      else
        case os_fstat os (a_file_fd client) of
          None \<Rightarrow>
            aio_prepare_error_response os (client\<lparr>a_file_fd := -1\<rparr>) 500
              (sys_close nt (a_file_fd client))
        | Some st \<Rightarrow>
            let client = client\<lparr>a_file_size := st_size st, a_file_offset := 0\<rparr> in
            case http_build_200 aio_kHeaderBufferSize (st_size st) (http_guess_type file_path) of
              None \<Rightarrow>
                aio_prepare_error_response os (client\<lparr>a_file_fd := -1\<rparr>) 500
                  (sys_close nt (a_file_fd client))
            | Some header \<Rightarrow>
                if \<not> os_malloc_ok os
                then aio_prepare_error_response os (client\<lparr>a_file_fd := -1\<rparr>) 500
                       (sys_close nt (a_file_fd client))
                else (client\<lparr>a_response_buffer := Some header,
                             a_response_size := length header, a_response_sent := 0,
                             a_state := AIO_STATE_SENDING_RESPONSE\<rparr>, nt))"

definition process_http_request ::
  "os \<Rightarrow> AioServer \<Rightarrow> Client \<Rightarrow> net \<Rightarrow> Client \<times> net" where
  "process_http_request os server client nt =
     (let (rc, request) = http_parse_request (a_request_buffer client) (a_request_size client)
      in
      if rc \<le> 0 then aio_prepare_error_response os client 400 nt
      else
        case http_safe_join (os_realpath os) (os_path_max os) aio_kPathBufferSize
               (a_doc_root server) (path request) of
          None \<Rightarrow> aio_prepare_error_response os client 404 nt
        | Some file_path \<Rightarrow>
            (case os_stat os file_path of
               None \<Rightarrow> aio_prepare_error_response os client 404 nt
             | Some st \<Rightarrow>
                 if \<not> st_is_reg st then aio_prepare_error_response os client 404 nt
                 else aio_prepare_file_response os client file_path nt))"

definition handle_client_read ::
  "os \<Rightarrow> AioServer \<Rightarrow> Client \<Rightarrow> net \<Rightarrow> AioServer \<times> Client \<times> net" where
  "handle_client_read os server client nt =
     (let ((n, eagain, got), nt) =
            sys_recv nt (a_fd client) (aio_kRequestBufferSize - a_request_size client - 1)
      in
      if n \<le> 0 then
        (if n < 0 \<and> eagain then (server, client, nt)
         else
           let (client, nt) = close_client client nt
           in (server\<lparr>num_clients := num_clients server - 1\<rparr>, client, nt))
      else
        let client = client\<lparr>a_request_buffer :=
                               take (a_request_size client) (a_request_buffer client) @ got,
                             a_request_size := a_request_size client + nat n\<rparr>
        in
        if strstr (c_str (a_request_buffer client)) CRLFCRLF \<noteq> None then
          (let (client, nt) = process_http_request os server client nt
           in (server\<lparr>a_total_requests := a_total_requests server + 1\<rparr>, client, nt))
        else (server, client, nt))"

definition handle_client_write ::
  "os \<Rightarrow> AioServer \<Rightarrow> Client \<Rightarrow> net \<Rightarrow> AioServer \<times> Client \<times> net" where
  "handle_client_write os server client nt =
     (case a_response_buffer client of
        Some buffer \<Rightarrow>
          let ((n, eagain), nt) =
                sys_send nt (a_fd client)
                  (take (a_response_size client - a_response_sent client)
                     (drop (a_response_sent client) buffer))
          in
          if n \<le> 0 then
            (if n < 0 \<and> eagain then (server, client, nt)
             else
               let (client, nt) = close_client client nt
               in (server\<lparr>num_clients := num_clients server - 1\<rparr>, client, nt))
          else
            let client = client\<lparr>a_response_sent := a_response_sent client + nat n\<rparr>;
                server = server\<lparr>a_total_bytes_sent := a_total_bytes_sent server + word_of_int n\<rparr>
            in
            if a_response_sent client \<ge> a_response_size client then
              (let client = client\<lparr>a_response_buffer := None\<rparr> in
               if a_file_fd client \<ge> 0
               then (server, client\<lparr>a_state := AIO_STATE_SENDING_RESPONSE\<rparr>, nt)
               else
                 let (client, nt) = close_client client nt
                 in (server\<lparr>num_clients := num_clients server - 1\<rparr>, client, nt))
            else (server, client, nt)
      | None \<Rightarrow>
          if a_file_fd client \<ge> 0 then
            let to_read =
                  (if a_file_offset client + int aio_kResponseBufferSize > a_file_size client
                   then a_file_size client - a_file_offset client
                   else int aio_kResponseBufferSize)
            in
            if to_read = 0 then
              (let (client, nt) = close_client client nt
               in (server\<lparr>num_clients := num_clients server - 1\<rparr>, client, nt))
            else
              case os_pread os (a_file_fd client) (nat to_read) (a_file_offset client) of
                None \<Rightarrow>
                  (let (client, nt) = close_client client nt
                   in (server\<lparr>num_clients := num_clients server - 1\<rparr>, client, nt))
              | Some bytes \<Rightarrow>
                  let chunk = take (nat to_read) bytes in
                  if length chunk = 0 then
                    (let (client, nt) = close_client client nt
                     in (server\<lparr>num_clients := num_clients server - 1\<rparr>, client, nt))
                  else
                    let ((sent, eagain), nt) = sys_send nt (a_fd client) chunk in
                    if sent \<le> 0 then
                      (if sent < 0 \<and> eagain then (server, client, nt)
                       else
                         let (client, nt) = close_client client nt
                         in (server\<lparr>num_clients := num_clients server - 1\<rparr>, client, nt))
                    else
                      let client = client\<lparr>a_file_offset := a_file_offset client + sent\<rparr>;
                          server = server\<lparr>a_total_bytes_sent :=
                                            a_total_bytes_sent server + word_of_int sent\<rparr>
                      in
                      if a_file_offset client \<ge> a_file_size client then
                        (let (client, nt) = close_client client nt
                         in (server\<lparr>num_clients := num_clients server - 1\<rparr>, client, nt))
                      else (server, client, nt)
          else (server, client, nt))"

text \<open>
  What one pass of the loop of \<open>run_aio_server\<close> does for one client. Before
  \<open>select\<close> the loop puts the socket of a client in \<open>read_fds\<close> when its state is
  \<open>STATE_READING_REQUEST\<close>, else in \<open>write_fds\<close> when its state is
  \<open>STATE_SENDING_RESPONSE\<close>; \<open>select\<close> leaves in each set the sockets that are
  ready, here \<open>readable\<close> and \<open>writable\<close>. After \<open>select\<close> the loop skips a
  client without a socket, calls \<open>handle_client_read\<close> when the socket is in
  \<open>read_fds\<close>, and then \<open>handle_client_write\<close> when the client still has its
  socket and it is in \<open>write_fds\<close>.
\<close>

definition aio_client_io ::
  "os \<Rightarrow> bool \<Rightarrow> bool \<Rightarrow> AioServer \<Rightarrow> Client \<Rightarrow> net \<Rightarrow> AioServer \<times> Client \<times> net" where
  "aio_client_io os readable writable server client nt =
     (if a_fd client < 0 then (server, client, nt)
      else
        let in_read_fds = (a_state client = AIO_STATE_READING_REQUEST \<and> readable);
            in_write_fds = (a_state client \<noteq> AIO_STATE_READING_REQUEST \<and>
                            a_state client = AIO_STATE_SENDING_RESPONSE \<and> writable);
            (server, client, nt) =
              (if in_read_fds then handle_client_read os server client nt
               else (server, client, nt))
        in
        if a_fd client \<ge> 0 \<and> in_write_fds then handle_client_write os server client nt
        else (server, client, nt))"

section \<open>The pool, the life of a connection, and the reachable states\<close>

text \<open>
  The free list is the chain of \<open>next\<close> pointers from \<open>server->free_list\<close>.
  \<open>chain cs p xs\<close> says that following the pointers from \<open>p\<close> visits exactly the
  records \<open>xs\<close> and ends at NULL; \<open>free_chain cs k p\<close> computes the list, giving up
  (\<open>None\<close>) after \<open>k\<close> records or at an index outside the array.
\<close>

primrec chain :: "Connection list \<Rightarrow> nat option \<Rightarrow> nat list \<Rightarrow> bool" where
  "chain cs p [] = (p = None)"
| "chain cs p (x # xs) = (p = Some x \<and> x < length cs \<and> chain cs (next_conn (cs ! x)) xs)"

fun free_chain :: "Connection list \<Rightarrow> nat \<Rightarrow> nat option \<Rightarrow> nat list option" where
  "free_chain cs k None = Some []"
| "free_chain cs 0 (Some i) = None"
| "free_chain cs (Suc k) (Some i) =
     (if i < length cs then map_option ((#) i) (free_chain cs k (next_conn (cs ! i)))
      else None)"



text \<open>
  The pool of \<open>n\<close> records is well formed: the array has \<open>n\<close> records, the free list
  is a chain without repetition, \<open>num_active\<close> and its length add up to \<open>n\<close>, and
  the records on the free list are those without a client socket.
\<close>

definition pool_inv :: "nat \<Rightarrow> Server \<Rightarrow> bool" where
  "pool_inv n server =
     (length (connections server) = n \<and>
      (case free_chain (connections server) n (free_list server) of
         None \<Rightarrow> False
       | Some xs \<Rightarrow>
           distinct xs \<and> num_active server + int (length xs) = int n \<and>
           list_all (\<lambda>i. (fd (connections server ! i) < 0) = (i \<in> set xs)) [0..<n]))"

text \<open>
  The same in two parts, with the free list \<open>xs\<close> named: the shape of the pool, and
  the descriptors.
\<close>

definition pool_rel :: "nat \<Rightarrow> Server \<Rightarrow> nat list \<Rightarrow> bool" where
  "pool_rel n server xs =
     (length (connections server) = n \<and> chain (connections server) (free_list server) xs \<and>
      distinct xs \<and> num_active server + int (length xs) = int n)"

definition fd_rel :: "nat \<Rightarrow> Server \<Rightarrow> nat list \<Rightarrow> bool" where
  "fd_rel n server xs = (\<forall>i<n. (fd (connections server ! i) < 0) = (i \<in> set xs))"

text \<open>A handler leaves the pool alone: the array, the free list and \<open>num_active\<close>.\<close>

definition same_pool :: "Server \<Rightarrow> Server \<Rightarrow> bool" where
  "same_pool s s' =
     (connections s' = connections s \<and> free_list s' = free_list s \<and>
      num_active s' = num_active s)"

text \<open>
  What holds of a connection between two events: in the state of sending the file it
  has an open file, and an open file is held only in the two sending states.
\<close>

definition conn_inv :: "Connection \<Rightarrow> bool" where
  "conn_inv c =
     ((state c = STATE_SENDING_FILE \<longrightarrow> file_fd c \<ge> 0) \<and>
      (file_fd c \<ge> 0 \<longrightarrow> state c = STATE_SENDING_HEADER \<or> state c = STATE_SENDING_FILE))"

text \<open>The server between two events: the pool, and every connection that holds a socket.\<close>

definition server_inv :: "nat \<Rightarrow> Server \<Rightarrow> bool" where
  "server_inv n server =
     (pool_inv n server \<and> list_all (\<lambda>c. fd c \<ge> 0 \<longrightarrow> conn_inv c) (connections server))"

text \<open>
  The same with the free list named, and with one record \<open>ci\<close> left out: the record
  that \<open>accept_connections\<close> has taken from the pool and not yet given its socket.
\<close>

definition inv_rel :: "nat \<Rightarrow> Server \<Rightarrow> nat list \<Rightarrow> bool" where
  "inv_rel n s xs =
     (pool_rel n s xs \<and> fd_rel n s xs \<and>
      (\<forall>i<n. fd (connections s ! i) \<ge> 0 \<longrightarrow> conn_inv (connections s ! i)))"

definition inv_except :: "nat \<Rightarrow> Server \<Rightarrow> nat list \<Rightarrow> nat \<Rightarrow> bool" where
  "inv_except n s xs ci =
     (pool_rel n s xs \<and> ci < n \<and> ci \<notin> set xs \<and>
      (\<forall>i<n. i \<noteq> ci \<longrightarrow> (fd (connections s ! i) < 0) = (i \<in> set xs)) \<and>
      (\<forall>i<n. i \<noteq> ci \<longrightarrow> fd (connections s ! i) \<ge> 0 \<longrightarrow> conn_inv (connections s ! i)))"


text \<open>
  The states the kqueue server reaches with a pool of \<open>n\<close> records: from the start, by
  accepting the pending connections and by events of client sockets. kqueue reports an
  event for a registered descriptor only, and \<open>close_connection\<close> deletes the
  registrations and releases the descriptor, so an event arrives for a connection that
  holds its socket. The environment may at any time change what the next socket calls
  will answer.
\<close>

inductive reachable :: "nat \<Rightarrow> Server \<times> net \<Rightarrow> bool" for n :: nat where
  start: "reachable n (init_server n kqd lfd root, nt)"
| accept: "reachable n sn \<Longrightarrow> reachable n (accept_connections os pending sn)"
| event: "reachable n (server, nt) \<Longrightarrow> ci < n \<Longrightarrow> fd (connections server ! ci) \<ge> 0 \<Longrightarrow>
          reachable n (client_event os flt ci (server, nt))"
| answers: "reachable n (server, nt) \<Longrightarrow> reachable n (server, nt\<lparr>recvq := rq, sendq := sq\<rparr>)"

section \<open>Sending a response over many write events\<close>

text \<open>
  The write events of one connection in turn, until the handler returns a negative
  value, on which the event loop closes the connection (\<open>True\<close>), or until \<open>k\<close>
  events have been handled (\<open>False\<close>).
\<close>

fun write_events ::
  "nat \<Rightarrow> os \<Rightarrow> Server \<Rightarrow> Connection \<Rightarrow> net \<Rightarrow> bool \<times> Connection \<times> net" where
  "write_events 0 os server conn nt = (False, conn, nt)"
| "write_events (Suc k) os server conn nt =
     (case handle_write_event os server conn nt of
        (rc, server', conn', nt') \<Rightarrow>
          if rc < 0 then (True, conn', nt') else write_events k os server' conn' nt')"

text \<open>
  The same for the select server, whose loop passes over a client once its \<open>fd\<close> is
  negative, that is, once \<open>close_client\<close> has run.
\<close>

fun aio_write_events ::
  "nat \<Rightarrow> os \<Rightarrow> AioServer \<Rightarrow> Client \<Rightarrow> net \<Rightarrow> AioServer \<times> Client \<times> net" where
  "aio_write_events 0 os server client nt = (server, client, nt)"
| "aio_write_events (Suc k) os server client nt =
     (if a_fd client < 0 then (server, client, nt)
      else
        case handle_client_write os server client nt of
          (server', client', nt') \<Rightarrow> aio_write_events k os server' client' nt')"

text \<open>A \<open>send\<close> that takes at least one byte, and possibly fewer than it is offered.\<close>

fun accepts :: "send_result \<Rightarrow> bool" where
  "accepts (Sent k) = (0 < k)"
| "accepts SendAgain = False"
| "accepts SendError = False"

text \<open>
  A connection of the kqueue server that has put the first \<open>m\<close> bytes of the header
  \<open>hdr\<close> followed by the file \<open>data\<close> on the socket \<open>sock\<close>, and has more to send.
\<close>

definition sending :: "int \<Rightarrow> int \<Rightarrow> string \<Rightarrow> string \<Rightarrow> nat \<Rightarrow> Connection \<Rightarrow> bool" where
  "sending sock f hdr data m c =
     (fd c = sock \<and> file_fd c = f \<and> 0 \<le> f \<and> file_size c = int (length data) \<and>
      (if m < length hdr
       then state c = STATE_SENDING_HEADER \<and> response_buffer c = Some hdr \<and>
            response_size c = length hdr \<and> response_sent c = m \<and> file_offset c = 0
       else state c = STATE_SENDING_FILE \<and> file_offset c = int (m - length hdr) \<and>
            m - length hdr < length data))"

text \<open>
  One write event went well: from \<open>m\<close> bytes sent it got to some \<open>m'\<close>, the bytes
  between them went on the wire in order, every answer of the socket it used brought
  at least one byte, and it returned a negative value exactly when all is sent.
\<close>

definition step_ok ::
  "int \<Rightarrow> int \<Rightarrow> string \<Rightarrow> string \<Rightarrow> nat \<Rightarrow> net \<Rightarrow> int \<times> Connection \<times> net \<Rightarrow> bool" where
  "step_ok sock f hdr data m nt res =
     (case res of (rc, c', nt') \<Rightarrow>
        (\<exists>m'. m \<le> m' \<and> m' \<le> length hdr + length data \<and>
           wire sock (log nt') = wire sock (log nt) @ take (m' - m) (drop m (hdr @ data)) \<and>
           list_all accepts (sendq nt') \<and>
           length (sendq nt) \<le> length (sendq nt') + (m' - m) \<and>
           (sendq nt \<noteq> [] \<longrightarrow> m < m') \<and>
           (if m' = length hdr + length data then rc < 0
            else rc = 0 \<and> sending sock f hdr data m' c')))"

text \<open>
  The same for a client of the select server. Its header is sent while
  \<open>response_buffer\<close> is not NULL. After the header of an empty file the client is
  still open, with all \<open>m\<close> bytes sent, and the next write event closes it.
\<close>

definition aio_sending :: "int \<Rightarrow> int \<Rightarrow> string \<Rightarrow> string \<Rightarrow> nat \<Rightarrow> Client \<Rightarrow> bool" where
  "aio_sending sock f hdr data m c =
     (a_fd c = sock \<and> 0 \<le> sock \<and> a_file_fd c = f \<and> 0 \<le> f \<and>
      a_file_size c = int (length data) \<and>
      (if m < length hdr
       then a_response_buffer c = Some hdr \<and> a_response_size c = length hdr \<and>
            a_response_sent c = m \<and> a_file_offset c = 0
       else a_response_buffer c = None \<and> a_file_offset c = int (m - length hdr) \<and>
            m \<le> length hdr + length data \<and>
            (m = length hdr + length data \<longrightarrow> data = [])))"

definition aio_step_ok ::
  "int \<Rightarrow> int \<Rightarrow> string \<Rightarrow> string \<Rightarrow> nat \<Rightarrow> net \<Rightarrow> AioServer \<times> Client \<times> net \<Rightarrow> bool" where
  "aio_step_ok sock f hdr data m nt res =
     (case res of (server', c', nt') \<Rightarrow>
        (\<exists>m'. m \<le> m' \<and> m' \<le> length hdr + length data \<and>
           wire sock (log nt') = wire sock (log nt) @ take (m' - m) (drop m (hdr @ data)) \<and>
           list_all accepts (sendq nt') \<and>
           length (sendq nt) \<le> length (sendq nt') + (m' - m) \<and>
           (if a_fd c' < 0 then m' = length hdr + length data
            else aio_sending sock f hdr data m' c' \<and> m < length hdr + length data \<and>
                 (sendq nt \<noteq> [] \<longrightarrow> m < m'))))"

text \<open>No \<open>send\<close> in the log was offered more than \<open>cap\<close> bytes.\<close>

definition offers_within :: "nat \<Rightarrow> io_event list \<Rightarrow> bool" where
  "offers_within cap evs =
     list_all (\<lambda>e. case e of IoSend d bytes n ea \<Rightarrow> length bytes \<le> cap | _ \<Rightarrow> True) evs"

text \<open>
  A connection of the kqueue server that has put the first \<open>m\<close> bytes of a response
  with no file (an error response) on the socket, and has more to send.
\<close>

definition sending_plain :: "int \<Rightarrow> string \<Rightarrow> nat \<Rightarrow> Connection \<Rightarrow> bool" where
  "sending_plain sock resp m c =
     (fd c = sock \<and> file_fd c < 0 \<and> state c = STATE_SENDING_HEADER \<and>
      response_buffer c = Some resp \<and> response_size c = length resp \<and>
      response_sent c = m \<and> m < length resp)"


text \<open>
  The events of one filter on the connection \<open>ci\<close> in turn, as the event loop handles
  them, until the connection is closed or \<open>k\<close> events have been handled.
\<close>

fun client_events :: "nat \<Rightarrow> os \<Rightarrow> kfilter \<Rightarrow> nat \<Rightarrow> Server \<times> net \<Rightarrow> Server \<times> net" where
  "client_events 0 os flt ci sn = sn"
| "client_events (Suc k) os flt ci sn =
     (if fd (connections (fst sn) ! ci) < 0 then sn
      else client_events k os flt ci (client_event os flt ci sn))"

text \<open>
  The file system as the servers find it when \<open>/index.html\<close> is served from the
  document root \<open>root\<close>: the joined path is \<open>fp\<close>, a regular file that opens as
  \<open>f\<close>, of contents \<open>data\<close>, and \<open>hdr\<close> is the header \<open>http_build_200\<close> writes
  for it; \<open>malloc\<close> and \<open>kevent\<close> succeed.
\<close>

definition index_file :: "os \<Rightarrow> string \<Rightarrow> nat \<Rightarrow> string \<Rightarrow> int \<Rightarrow> string \<Rightarrow> string \<Rightarrow> bool" where
  "index_file os root outsz fp f data hdr =
     (http_safe_join (os_realpath os) (os_path_max os) outsz root ''/index.html'' = Some fp \<and>
      (\<exists>st. os_stat os fp = Some st \<and> st_is_reg st) \<and>
      os_open os fp = f \<and> 0 \<le> f \<and>
      (\<exists>st. os_fstat os f = Some st \<and> st_size st = int (length data)) \<and>
      (\<forall>count off. 0 \<le> off \<longrightarrow>
         os_pread os f count off = Some (take count (drop (nat off) data))) \<and>
      http_build_200 kHeaderBufferSize (int (length data)) (http_guess_type fp) = Some hdr \<and>
      os_malloc_ok os \<and> os_kevent_ok os)"

section \<open>Failures of the socket\<close>

text \<open>
  A \<open>recv\<close> or \<open>send\<close> has failed when it returned 0 or a negative value and
  \<open>errno\<close> was not \<open>EAGAIN\<close>: an error of the transport, or for \<open>recv\<close> the
  orderly close of the peer.
\<close>

fun failed :: "io_event \<Rightarrow> bool" where
  "failed (IoRecv d n ea) = (n \<le> 0 \<and> \<not> (n < 0 \<and> ea))"
| "failed (IoSend d bytes n ea) = (n \<le> 0 \<and> \<not> (n < 0 \<and> ea))"
| "failed (IoClose d) = False"

fun is_close :: "io_event \<Rightarrow> bool" where
  "is_close (IoClose d) = True"
| "is_close (IoRecv d n ea) = False"
| "is_close (IoSend d bytes n ea) = False"

text \<open>
  After the first call that failed, the only calls in the log are \<open>close\<close>, and the
  socket \<open>sock\<close> is among the descriptors closed.
\<close>

fun torn_down :: "int \<Rightarrow> io_event list \<Rightarrow> bool" where
  "torn_down sock [] = True"
| "torn_down sock (e # es) =
     (if failed e then list_all is_close es \<and> IoClose sock \<in> set es
      else torn_down sock es)"

text \<open>
  What a handler of the kqueue server adds to the log: a call that failed is the last
  one, and the handler returns a negative value.
\<close>

definition handler_trace :: "int \<Rightarrow> io_event list \<Rightarrow> bool" where
  "handler_trace rc ext =
     (if list_ex failed ext
      then rc < 0 \<and> failed (last ext) \<and> \<not> list_ex failed (butlast ext)
      else True)"

section \<open>The statistics\<close>

text \<open>
  Two servers that agree on every field but the counters \<open>total_requests\<close>,
  \<open>total_bytes_sent\<close> and \<open>total_connections\<close>.
\<close>

definition stats_apart :: "Server \<Rightarrow> Server \<Rightarrow> bool" where
  "stats_apart s t =
     (kq s = kq t \<and> listen_fd s = listen_fd t \<and> doc_root s = doc_root t \<and>
      connections s = connections t \<and> free_list s = free_list t \<and>
      num_active s = num_active t)"

definition aio_stats_apart :: "AioServer \<Rightarrow> AioServer \<Rightarrow> bool" where
  "aio_stats_apart s t =
     (a_listen_fd s = a_listen_fd t \<and> a_doc_root s = a_doc_root t \<and>
      clients s = clients t \<and> num_clients s = num_clients t)"

section \<open>A small world for concrete runs\<close>

text \<open>
  A document root \<open>/var/www\<close> holding \<open>index.html\<close> of 37 bytes, beside a directory
  \<open>/var/www-secret\<close> holding \<open>passwd\<close>. \<open>realpath\<close> resolves the paths that exist,
  and the path through \<open>..\<close> to the file it names.
\<close>

definition ex_index :: string where
  "ex_index = ''<html><body>Hello world</body></html>''"

definition ex_secret :: string where
  "ex_secret = ''root:x:0:0''"

definition ex_os :: os where
  "ex_os =
     \<lparr>os_realpath =
        (\<lambda>p. if p = ''/var/www'' then Some ''/var/www''
             else if p = ''/var/www/index.html'' then Some ''/var/www/index.html''
             else if p = ''/var/www/../www-secret/passwd'' then Some ''/var/www-secret/passwd''
             else None),
      os_path_max = 1024,
      os_stat =
        (\<lambda>p. if p = ''/var/www'' then Some \<lparr>st_is_reg = False, st_size = 96\<rparr>
             else if p = ''/var/www/index.html'' then Some \<lparr>st_is_reg = True, st_size = 37\<rparr>
             else if p = ''/var/www-secret/passwd''
             then Some \<lparr>st_is_reg = True, st_size = 10\<rparr>
             else None),
      os_open =
        (\<lambda>p. if p = ''/var/www/index.html'' then 7
             else if p = ''/var/www-secret/passwd'' then 8 else -1),
      os_fstat =
        (\<lambda>d. if d = 7 then Some \<lparr>st_is_reg = True, st_size = 37\<rparr>
             else if d = 8 then Some \<lparr>st_is_reg = True, st_size = 10\<rparr> else None),
      os_pread =
        (\<lambda>d count off.
           if d = 7 then Some (take count (drop (nat off) ex_index))
           else if d = 8 then Some (take count (drop (nat off) ex_secret)) else None),
      os_malloc_ok = True,
      os_kevent_ok = True\<rparr>"

definition ex_net :: net where
  "ex_net = \<lparr>recvq = [], sendq = [], log = []\<rparr>"

text \<open>The kqueue server with a pool of two records, after it accepted the socket 5.\<close>

definition ex_accepted :: "Server \<times> net" where
  "ex_accepted = accept_connections ex_os [5] (init_server 2 3 4 ''/var/www'', ex_net)"


definition ex_aio_full :: "AioServer \<times> net" where
  "ex_aio_full = accept_new_clients [5] (aio_init_server 1 4 ''/var/www'', ex_net)"

text \<open>The kqueue server of two records after the request for \<open>/index.html\<close> arrived
  on the socket 5.\<close>

definition ex_request :: string where
  "ex_request = ''GET /index.html HTTP/1.1'' @ CRLFCRLF"

definition ex_requested :: "Server \<times> net" where
  "ex_requested =
     client_event ex_os EVFILT_READ 0
       (fst ex_accepted, (snd ex_accepted)\<lparr>recvq := [Recvd ex_request], sendq := []\<rparr>)"

text \<open>The same server after a write event on which the socket took the whole header.\<close>

definition ex_sending :: "Server \<times> net" where
  "ex_sending =
     client_event ex_os EVFILT_WRITE 0
       (fst ex_requested, (snd ex_requested)\<lparr>recvq := [], sendq := [Sent 512]\<rparr>)"

text \<open>
  A path lies within the root when it is the root or continues it after a \<open>/\<close>.
\<close>

definition path_within :: "string \<Rightarrow> string \<Rightarrow> bool" where
  "path_within root p = (p = root \<or> prefix (root @ ''/'') p)"

text \<open>
  The kqueue server of two records after a request for \<open>/../www-secret/passwd\<close>
  arrived on the socket 5, and after the write event that follows, on which the socket
  takes all it is offered.
\<close>

definition ex_escape_request :: string where
  "ex_escape_request = ''GET /../www-secret/passwd HTTP/1.1'' @ CRLFCRLF"

definition ex_escape :: "Server \<times> net" where
  "ex_escape =
     client_event ex_os EVFILT_READ 0
       (fst ex_accepted,
        (snd ex_accepted)\<lparr>recvq := [Recvd ex_escape_request], sendq := []\<rparr>)"

definition ex_escape_sent :: "Server \<times> net" where
  "ex_escape_sent =
     client_event ex_os EVFILT_WRITE 0
       (fst ex_escape, (snd ex_escape)\<lparr>recvq := [], sendq := [Sent 512, Sent 512]\<rparr>)"

definition ex_escape_header :: string where
  "ex_escape_header = ''HTTP/1.1 200 OK'' @ CRLF
     @ ''Content-Length: 10'' @ CRLF
     @ ''Content-Type: application/octet-stream'' @ CRLF
     @ ''Cache-Control: no-cache'' @ CRLF
     @ ''Connection: close'' @ CRLF @ CRLF"

text \<open>
  A request that never ends: 4095 bytes arrive on the socket 5 of the kqueue server and
  fill its buffer, then the socket takes the response. The select server receives 8191
  such bytes, and then is asked to read again.
\<close>

definition ex_flood :: "Server \<times> net" where
  "ex_flood =
     client_event ex_os EVFILT_READ 0
       (fst ex_accepted,
        (snd ex_accepted)\<lparr>recvq := [Recvd (replicate 4095 CHR ''a'')], sendq := []\<rparr>)"

definition ex_flood_sent :: "Server \<times> net" where
  "ex_flood_sent =
     client_event ex_os EVFILT_WRITE 0
       (fst ex_flood, (snd ex_flood)\<lparr>recvq := [], sendq := [Sent 512]\<rparr>)"

definition ex_aio_flood :: "AioServer \<times> Client \<times> net" where
  "ex_aio_flood =
     handle_client_read ex_os (fst ex_aio_full) (clients (fst ex_aio_full) ! 0)
       (ex_net\<lparr>recvq := [Recvd (replicate 8191 CHR ''a''), Recvd ''aaaa'']\<rparr>)"

definition ex_aio_flood_again :: "AioServer \<times> Client \<times> net" where
  "ex_aio_flood_again =
     handle_client_read ex_os (fst ex_aio_flood) (fst (snd ex_aio_flood))
       (snd (snd ex_aio_flood))"

text \<open>
  The header of the response to the request for \<open>/index.html\<close>, and the select
  server after that request arrived on its socket 5.
\<close>

definition ex_index_header :: string where
  "ex_index_header = ''HTTP/1.1 200 OK'' @ CRLF
     @ ''Content-Length: 37'' @ CRLF
     @ ''Content-Type: text/html'' @ CRLF
     @ ''Cache-Control: no-cache'' @ CRLF
     @ ''Connection: close'' @ CRLF @ CRLF"

definition ex_aio_requested :: "AioServer \<times> Client \<times> net" where
  "ex_aio_requested =
     handle_client_read ex_os (fst ex_aio_full) (clients (fst ex_aio_full) ! 0)
       (ex_net\<lparr>recvq := [Recvd ex_request]\<rparr>)"

text \<open>
  The sockets after the request for \<open>/index.html\<close> when the peer has closed its
  end and the next \<open>send\<close> fails; and each server in the same state with a peer
  that has closed its end while the socket still takes what is sent.
\<close>

definition ex_broken :: net where
  "ex_broken = (snd ex_requested)\<lparr>recvq := [Recvd []], sendq := [SendError]\<rparr>"

definition ex_peer_closed :: "Server \<times> net" where
  "ex_peer_closed =
     (fst ex_requested, (snd ex_requested)\<lparr>recvq := [Recvd []], sendq := [Sent 512]\<rparr>)"

definition ex_aio_peer_closed :: net where
  "ex_aio_peer_closed = (snd (snd ex_aio_requested))\<lparr>recvq := [Recvd []], sendq := [Sent 512]\<rparr>"

text \<open>
  The kqueue server of two records after a request for \<open>/missing\<close>, which no file
  answers, arrived on the socket 5, and after the write event on which the socket takes
  the whole response. \<open>ex_not_found\<close> is the text of that response.
\<close>

definition ex_missing_request :: string where
  "ex_missing_request = ''GET /missing HTTP/1.1'' @ CRLFCRLF"

definition ex_not_found :: string where
  "ex_not_found = ''HTTP/1.1 404 Not Found'' @ CRLF
     @ ''Content-Length: 9'' @ CRLF
     @ ''Content-Type: text/plain'' @ CRLF
     @ ''Connection: close'' @ CRLF @ CRLF @ ''Not Found''"

definition ex_missing :: "Server \<times> net" where
  "ex_missing =
     client_event ex_os EVFILT_READ 0
       (fst ex_accepted,
        (snd ex_accepted)\<lparr>recvq := [Recvd ex_missing_request], sendq := []\<rparr>)"

definition ex_missing_sent :: "Server \<times> net" where
  "ex_missing_sent =
     client_event ex_os EVFILT_WRITE 0
       (fst ex_missing, (snd ex_missing)\<lparr>recvq := [], sendq := [Sent 512]\<rparr>)"

text \<open>
  Sockets on which the request for \<open>/index.html\<close> is waiting and the next \<open>send\<close>
  takes 10 bytes, and the accepted connection with that request in its buffer.
\<close>

definition ex_counted :: net where
  "ex_counted = \<lparr>recvq = [Recvd ex_request], sendq = [Sent 10], log = []\<rparr>"

definition ex_conn :: Connection where
  "ex_conn = (connections (fst ex_accepted) ! 0)
     \<lparr>request_buffer := Some ex_request, request_size := 28\<rparr>"

text \<open>
  The kqueue server after the request that never ends, over 97 write events on a socket
  that takes one byte at each \<open>send\<close>.
\<close>

definition ex_flood_trickle :: "Server \<times> net" where
  "ex_flood_trickle =
     client_events 97 ex_os EVFILT_WRITE 0
       (fst ex_flood, (snd ex_flood)\<lparr>recvq := [], sendq := replicate 97 (Sent 1)\<rparr>)"









text \<open>
  The request for \<open>/\<close> on the socket 5 at each server, and the response sent one
  byte at a time.
\<close>

definition ex_root_request :: string where
  "ex_root_request = ''GET / HTTP/1.1'' @ CRLFCRLF"

definition ex_root :: "Server \<times> net" where
  "ex_root =
     client_event ex_os EVFILT_READ 0
       (fst ex_accepted, (snd ex_accepted)\<lparr>recvq := [Recvd ex_root_request], sendq := []\<rparr>)"

definition ex_root_sent :: "Server \<times> net" where
  "ex_root_sent =
     client_events 146 ex_os EVFILT_WRITE 0
       (fst ex_root, (snd ex_root)\<lparr>recvq := [], sendq := replicate 146 (Sent 1)\<rparr>)"

definition ex_aio_root :: "AioServer \<times> Client \<times> net" where
  "ex_aio_root =
     handle_client_read ex_os (fst ex_aio_full) (clients (fst ex_aio_full) ! 0)
       (ex_net\<lparr>recvq := [Recvd ex_root_request]\<rparr>)"

definition ex_aio_root_sent :: "AioServer \<times> Client \<times> net" where
  "ex_aio_root_sent =
     aio_write_events 146 ex_os (fst ex_aio_root) (fst (snd ex_aio_root))
       ((snd (snd ex_aio_root))\<lparr>sendq := replicate 146 (Sent 1)\<rparr>)"

section \<open>Properties\<close>

subsection \<open>Parsing a request line\<close>

lemma c_str_id: "CHR 0x00 \<notin> set s \<Longrightarrow> c_str s = s"
  by (auto simp: c_str_def takeWhile_eq_all_conv)

lemma prefix_CRLFCRLF_hd: "prefix CRLFCRLF (h # t) \<Longrightarrow> h = CHR 0x0D"
  by (simp add: CRLFCRLF_def)

lemma strstr_skip:
  "CHR 0x0D \<notin> set a \<Longrightarrow>
   strstr (a @ b) CRLFCRLF = map_option (\<lambda>k. length a + k) (strstr b CRLFCRLF)"
proof (induction a)
  case Nil
  show ?case by (simp add: option.map_ident)
next
  case (Cons h a)
  then have "\<not> prefix CRLFCRLF (h # a @ b)"
    using prefix_CRLFCRLF_hd by fastforce
  with Cons show ?case by (simp add: option.map_comp comp_def)
qed

lemma strstr_terminated: "\<exists>k \<le> length v. strstr (v @ CRLFCRLF) CRLFCRLF = Some k"
proof (induction v)
  case Nil
  show ?case by (simp add: CRLFCRLF_def)
next
  case (Cons h v)
  then obtain k where "k \<le> length v" "strstr (v @ CRLFCRLF) CRLFCRLF = Some k" by blast
  then show ?case by (cases "prefix CRLFCRLF (h # v @ CRLFCRLF)") auto
qed

lemma strchr_first: "ch \<notin> set p \<Longrightarrow> strchr (p @ ch # r) ch = Some (length p)"
  by (induction p) auto

text \<open>
  The request \<open>GET p v\<close> followed by the blank line, where the target \<open>p\<close> has no
  space, carriage return or NUL and the version \<open>v\<close> has no NUL: it parses unless the
  target does not fit the path field.
\<close>

lemma parse_get_line:
  assumes p: "p \<noteq> []" "CHR '' '' \<notin> set p" "CHR 0x0D \<notin> set p" "CHR 0x00 \<notin> set p"
    and v: "CHR 0x00 \<notin> set v" and len: "14 \<le> n"
  shows "http_parse_request (''GET '' @ p @ '' '' @ v @ CRLFCRLF) n =
         (if length p \<ge> path_field_size
          then (-1, zero_req\<lparr>complete := 1, req_method := ''GET''\<rparr>)
          else (1, zero_req\<lparr>complete := 1, req_method := ''GET'',
                           path := (if p = ''/'' then ''/index.html'' else p)\<rparr>))"
proof -
  define rest where "rest = p @ '' '' @ v @ CRLFCRLF"
  define buf where "buf = ''GET '' @ rest"
  obtain k where k: "k \<le> length v" "strstr (v @ CRLFCRLF) CRLFCRLF = Some k"
    using strstr_terminated by blast
  define he where "he = 5 + length p + k"
  have nul: "CHR 0x00 \<notin> set buf" using p v by (simp add: buf_def rest_def CRLFCRLF_def)
  have cs: "c_str buf = buf" by (rule c_str_id [OF nul])
  have "strstr ((''GET '' @ p @ '' '') @ v @ CRLFCRLF) CRLFCRLF =
        map_option (\<lambda>k. length (''GET '' @ p @ '' '') + k) (strstr (v @ CRLFCRLF) CRLFCRLF)"
    by (rule strstr_skip) (use p in simp)
  then have he: "strstr buf CRLFCRLF = Some he"
    using k by (simp add: buf_def rest_def he_def)
  have t4: "take 4 buf = ''GET ''" and d4: "drop 4 buf = rest"
    by (simp_all add: buf_def)
  obtain h t where ht: "p = h # t" using p(1) by (cases p) auto
  have h: "h \<noteq> CHR '' ''" using p(2) ht by auto
  have tw: "takeWhile (\<lambda>c. c = CHR '' '') (take (he - 4) rest) = []"
    using h ht by (simp add: rest_def he_def)
  have sc: "strchr rest CHR '' '' = Some (length p)"
    unfolding rest_def using strchr_first [OF p(2)] by simp
  have tp: "take (length p) rest = p" by (simp add: rest_def)
  have he_bounds: "\<not> he \<le> 4" "\<not> he < 4 + length p" by (simp_all add: he_def)
  have "http_parse_request buf n =
         (if length p \<ge> path_field_size
          then (-1, zero_req\<lparr>complete := 1, req_method := ''GET''\<rparr>)
          else (1, zero_req\<lparr>complete := 1, req_method := ''GET'',
                           path := (if p = ''/'' then ''/index.html'' else p)\<rparr>))"
    unfolding http_parse_request_def cs
    using len p(1) by (simp add: he t4 d4 tw sc tp he_bounds Let_def)
  then show ?thesis by (simp add: buf_def rest_def)
qed

lemma parse_root:
  "http_parse_request (''GET / HTTP/1.1'' @ CRLFCRLF) 18 =
   (1, zero_req\<lparr>complete := 1, req_method := ''GET'', path := ''/index.html''\<rparr>)"
  using parse_get_line [of "''/''" "''HTTP/1.1''" 18] by (simp add: path_field_size_def)

lemma parse_index:
  "http_parse_request (''GET /index.html HTTP/1.1'' @ CRLFCRLF) 28 =
   (1, zero_req\<lparr>complete := 1, req_method := ''GET'', path := ''/index.html''\<rparr>)"
  using parse_get_line [of "''/index.html''" "''HTTP/1.1''" 28]
  by (simp add: path_field_size_def)

subsection \<open>The path \<open>/\<close> is \<open>/index.html\<close>\<close>

lemma prepare_error_response_request:
  "prepare_error_response os (conn\<lparr>request_buffer := rb, request_size := rs\<rparr>) code =
   (case prepare_error_response os conn code of
      (r, c') \<Rightarrow> (r, c'\<lparr>request_buffer := rb, request_size := rs\<rparr>))"
  by (cases "error_response_text code") (simp_all add: prepare_error_response_def Let_def)

lemma prepare_file_response_request:
  "prepare_file_response os (conn\<lparr>request_buffer := rb, request_size := rs\<rparr>) fp nt =
   (case prepare_file_response os conn fp nt of
      (r, c', nt') \<Rightarrow> (r, c'\<lparr>request_buffer := rb, request_size := rs\<rparr>, nt'))"
  by (simp add: prepare_file_response_def Let_def split: option.splits)

lemma process_request_buffer:
  assumes "http_parse_request (buf_bytes rb) rs =
           http_parse_request (buf_bytes (request_buffer conn)) (request_size conn)"
  shows "process_request os server (conn\<lparr>request_buffer := rb, request_size := rs\<rparr>) nt =
     (case process_request os server conn nt of
        (s', c', nt') \<Rightarrow> (s', c'\<lparr>request_buffer := rb, request_size := rs\<rparr>, nt'))"
  using assms
  by (simp add: process_request_def prepare_error_response_request prepare_file_response_request
      Let_def split: option.splits prod.splits)

lemma aio_close_client_request:
  "close_client (client\<lparr>a_request_buffer := rb, a_request_size := rs\<rparr>) nt = close_client client nt"
  by (simp add: close_client_def reset_client_def Let_def)


lemma aio_prepare_error_response_request:
  "(case aio_prepare_error_response os (client\<lparr>a_request_buffer := rb, a_request_size := rs\<rparr>) code nt of
      (c', nt') \<Rightarrow> (c'\<lparr>a_request_buffer := [], a_request_size := 0\<rparr>, nt')) =
   (case aio_prepare_error_response os client code nt of
      (c', nt') \<Rightarrow> (c'\<lparr>a_request_buffer := [], a_request_size := 0\<rparr>, nt'))"
  by (cases "aio_error_response_text code")
     (simp_all add: aio_prepare_error_response_def aio_close_client_request)

lemma aio_prepare_file_response_request:
  "(case aio_prepare_file_response os (client\<lparr>a_request_buffer := rb, a_request_size := rs\<rparr>) fp nt of
      (c', nt') \<Rightarrow> (c'\<lparr>a_request_buffer := [], a_request_size := 0\<rparr>, nt')) =
   (case aio_prepare_file_response os client fp nt of
      (c', nt') \<Rightarrow> (c'\<lparr>a_request_buffer := [], a_request_size := 0\<rparr>, nt'))"
proof -
  have e: "\<And>c n. (case aio_prepare_error_response os (c\<lparr>a_request_buffer := rb, a_request_size := rs\<rparr>) 500 n of
      (c', nt') \<Rightarrow> (c'\<lparr>a_request_buffer := [], a_request_size := 0\<rparr>, nt')) =
   (case aio_prepare_error_response os c 500 n of
      (c', nt') \<Rightarrow> (c'\<lparr>a_request_buffer := [], a_request_size := 0\<rparr>, nt'))"
    by (rule aio_prepare_error_response_request)
  show ?thesis
  proof (cases "os_open os fp < 0")
    case True
    then show ?thesis
      using e [of "client\<lparr>a_file_fd := os_open os fp\<rparr>" nt]
      by (cases client) (simp add: aio_prepare_file_response_def)
  next
    case nonneg: False
    show ?thesis
    proof (cases "os_fstat os (os_open os fp)")
      case None
      then show ?thesis
        using nonneg e [of "client\<lparr>a_file_fd := -1\<rparr>" "sys_close nt (os_open os fp)"]
        by (cases client) (simp add: aio_prepare_file_response_def)
    next
      case (Some st)
      let ?c = "client\<lparr>a_file_fd := -1, a_file_size := st_size st, a_file_offset := 0\<rparr>"
      show ?thesis
        using nonneg Some e [of ?c "sys_close nt (os_open os fp)"]
        by (cases "http_build_200 aio_kHeaderBufferSize (st_size st) (http_guess_type fp)";
            cases "os_malloc_ok os"; cases client)
           (simp_all add: aio_prepare_file_response_def)
    qed
  qed
qed

lemma process_http_request_buffer:
  assumes "http_parse_request rb rs =
           http_parse_request (a_request_buffer client) (a_request_size client)"
  shows "(case process_http_request os server (client\<lparr>a_request_buffer := rb, a_request_size := rs\<rparr>) nt of
      (c', nt') \<Rightarrow> (c'\<lparr>a_request_buffer := [], a_request_size := 0\<rparr>, nt')) =
   (case process_http_request os server client nt of
      (c', nt') \<Rightarrow> (c'\<lparr>a_request_buffer := [], a_request_size := 0\<rparr>, nt'))"
proof -
  obtain rc req where pr:
    "http_parse_request (a_request_buffer client) (a_request_size client) = (rc, req)"
    by fastforce
  note defs = process_http_request_def aio_prepare_error_response_request
    aio_prepare_file_response_request
  show ?thesis
  proof (cases "rc \<le> 0")
    case True
    then show ?thesis using assms pr by (simp add: defs)
  next
    case pos: False
    show ?thesis
    proof (cases "http_safe_join (os_realpath os) (os_path_max os) aio_kPathBufferSize
               (a_doc_root server) (path req)")
      case None
      then show ?thesis using assms pr pos by (simp add: defs)
    next
      case (Some fp)
      then show ?thesis using assms pr pos
        by (cases "os_stat os fp") (simp_all add: defs)
    qed
  qed
qed

subsection \<open>The pool and the handlers of the kqueue server\<close>

lemma chain_frame: "chain cs p xs \<Longrightarrow> i \<notin> set xs \<Longrightarrow> chain (cs[i := c]) p xs"
  by (induction xs arbitrary: p) auto

lemma chain_unique: "chain cs p xs \<Longrightarrow> chain cs p ys \<Longrightarrow> xs = ys"
proof (induction xs arbitrary: p ys)
  case Nil then show ?case by (cases ys) auto
next
  case (Cons x xs) then show ?case by (cases ys) auto
qed

lemma chain_free_chain: "chain cs p xs \<Longrightarrow> length xs \<le> k \<Longrightarrow> free_chain cs k p = Some xs"
proof (induction xs arbitrary: p k)
  case Nil then show ?case by simp
next
  case (Cons x xs)
  then obtain k' where "k = Suc k'" by (cases k) auto
  with Cons show ?case by simp
qed

lemma free_chain_chain: "free_chain cs k p = Some xs \<Longrightarrow> chain cs p xs \<and> length xs \<le> k"
proof (induction cs k p arbitrary: xs rule: free_chain.induct)
  case (1 cs k) then show ?case by simp
next
  case (2 cs i) then show ?case by simp
next
  case (3 cs k i) then show ?case by (auto split: if_splits)
qed

lemma chain_bound: "chain cs p xs \<Longrightarrow> set xs \<subseteq> {..<length cs}"
  by (induction xs arbitrary: p) auto

lemma distinct_bounded_length: "distinct xs \<Longrightarrow> set xs \<subseteq> {..<n} \<Longrightarrow> length xs \<le> n"
  by (metis card_lessThan card_mono distinct_card finite_lessThan)

lemma pool_inv_rel: "pool_inv n s = (\<exists>xs. pool_rel n s xs \<and> fd_rel n s xs)"
proof
  assume "pool_inv n s"
  then obtain xs where l: "length (connections s) = n"
    and fc: "free_chain (connections s) n (free_list s) = Some xs"
    and r: "distinct xs" "num_active s + int (length xs) = int n"
       "list_all (\<lambda>i. (fd (connections s ! i) < 0) = (i \<in> set xs)) [0..<n]"
    by (auto simp: pool_inv_def split: option.splits)
  from free_chain_chain [OF fc] r l show "\<exists>xs. pool_rel n s xs \<and> fd_rel n s xs"
    by (auto simp: pool_rel_def fd_rel_def list_all_iff)
next
  assume "\<exists>xs. pool_rel n s xs \<and> fd_rel n s xs"
  then obtain xs where p: "pool_rel n s xs" and f: "fd_rel n s xs" by blast
  then have "length xs \<le> n"
    using distinct_bounded_length [of xs n] chain_bound [of "connections s" "free_list s" xs]
    by (auto simp: pool_rel_def)
  with p have "free_chain (connections s) n (free_list s) = Some xs"
    by (simp add: pool_rel_def chain_free_chain)
  with p f show "pool_inv n s"
    by (auto simp: pool_inv_def pool_rel_def fd_rel_def list_all_iff)
qed


lemma init_chain:
  "i \<le> n \<Longrightarrow>
   chain (map (\<lambda>i. zero_connection\<lparr>fd := -1, next_conn := (if i + 1 < n then Some (i + 1) else None)\<rparr>) [0..<n])
     (if i < n then Some i else None) [i..<n]"
proof (induction "n - i" arbitrary: i)
  case 0
  then show ?case by simp
next
  case (Suc d)
  then have lt: "i < n" and d: "d = n - Suc i" and le: "Suc i \<le> n" by auto
  have u: "[i..<n] = i # [Suc i..<n]" using lt by (rule upt_conv_Cons)
  from Suc(1) [OF d le] lt show ?case
    unfolding u by (auto split: if_splits)
qed

lemma init_pool_rel: "0 < n \<Longrightarrow> pool_rel n (init_server n kqd lfd root) [0..<n]"
  using init_chain [of 0 n] by (simp add: pool_rel_def init_server_def)

lemma init_fd_rel: "fd_rel n (init_server n kqd lfd root) [0..<n]"
  by (simp add: fd_rel_def init_server_def)

lemma alloc_none: "pool_rel n s [] \<Longrightarrow> alloc_connection s = (None, s)"
  by (simp add: pool_rel_def alloc_connection_def)

lemma alloc_some:
  assumes "pool_rel n s (x # xs)"
  shows "alloc_connection s =
      (Some x, s\<lparr>free_list := next_conn (connections s ! x),
                 connections := (connections s)
                   [x := reset_connection ((connections s ! x)\<lparr>next_conn := None\<rparr>)],
                 num_active := num_active s + 1,
                 total_connections := total_connections s + 1\<rparr>)"
    and "pool_rel n (snd (alloc_connection s)) xs"
proof -
  from assms have fl: "free_list s = Some x" and x: "x < length (connections s)"
    and ch: "chain (connections s) (next_conn (connections s ! x)) xs"
    and nx: "x \<notin> set xs" and d: "distinct xs"
    and len: "length (connections s) = n"
    and na: "num_active s + int (length xs) + 1 = int n"
    by (auto simp: pool_rel_def)
  show a: "alloc_connection s =
      (Some x, s\<lparr>free_list := next_conn (connections s ! x),
                 connections := (connections s)
                   [x := reset_connection ((connections s ! x)\<lparr>next_conn := None\<rparr>)],
                 num_active := num_active s + 1,
                 total_connections := total_connections s + 1\<rparr>)"
    by (simp add: alloc_connection_def fl Let_def)
  show "pool_rel n (snd (alloc_connection s)) xs"
    unfolding a using chain_frame [OF ch nx] d len na
    by (simp add: pool_rel_def)
qed


lemma free_connection_eq:
  "free_connection s ci nt =
    (s\<lparr>connections := (connections s)
          [ci := (connections s ! ci)
             \<lparr>fd := (if fd (connections s ! ci) \<ge> 0 then -1 else fd (connections s ! ci)),
              file_fd := (if file_fd (connections s ! ci) \<ge> 0 then -1
                          else file_fd (connections s ! ci)),
              next_conn := free_list s\<rparr>],
        free_list := Some ci, num_active := num_active s - 1\<rparr>,
     snd (free_connection s ci nt))"
  by (cases "fd (connections s ! ci) \<ge> 0"; cases "file_fd (connections s ! ci) \<ge> 0")
     (simp_all add: free_connection_def Let_def)

lemma free_pool:
  assumes "pool_rel n s xs" "ci < n" "ci \<notin> set xs"
  shows "pool_rel n (fst (free_connection s ci nt)) (ci # xs)"
  using assms chain_frame [of "connections s" "free_list s" xs ci]
  by (subst free_connection_eq) (simp add: pool_rel_def)

lemma free_fd:
  "ci < length (connections s) \<Longrightarrow> fd (connections (fst (free_connection s ci nt)) ! ci) < 0"
  by (subst free_connection_eq) simp

lemma free_others:
  "j \<noteq> ci \<Longrightarrow> connections (fst (free_connection s ci nt)) ! j = connections s ! j"
  by (subst free_connection_eq) simp

lemma update_pool:
  "pool_rel n s xs \<Longrightarrow> ci \<notin> set xs \<Longrightarrow>
   pool_rel n (s\<lparr>connections := (connections s)[ci := c]\<rparr>) xs"
  by (simp add: pool_rel_def chain_frame)

lemma prepare_error_response_props:
  assumes "prepare_error_response os c code = (r, c')"
  shows "fd c' = fd c \<and> file_fd c' = file_fd c \<and> next_conn c' = next_conn c \<and>
         (c' = c \<or> state c' = STATE_SENDING_HEADER)"
  using assms
  by (cases "error_response_text code")
     (auto simp: prepare_error_response_def Let_def split: if_splits)

lemma prepare_file_response_props:
  assumes "prepare_file_response os c fp nt = (r, c', nt')"
  shows "fd c' = fd c \<and> next_conn c' = next_conn c \<and>
         ((file_fd c' < 0 \<and> state c' = state c \<and> r < 0) \<or>
          (file_fd c' \<ge> 0 \<and> state c' = STATE_SENDING_HEADER))"
  using assms
  by (auto simp: prepare_file_response_def Let_def split: if_splits option.splits)


lemma conn_inv_error:
  assumes "prepare_error_response os c code = (r, c')"
    and "conn_inv c \<or> state c = STATE_SENDING_HEADER"
  shows "conn_inv c'"
  using prepare_error_response_props [OF assms(1)] assms(2)
  by (auto simp: conn_inv_def split: if_splits)

lemma process_request_props:
  assumes "process_request os s c nt = (s', c', nt')"
    and "state c = STATE_READING_REQUEST" and "conn_inv c"
  shows "fd c' = fd c \<and> next_conn c' = next_conn c \<and> conn_inv c' \<and> same_pool s s'"
proof -
  have e: "\<And>code. fd (snd (prepare_error_response os c code)) = fd c \<and>
       next_conn (snd (prepare_error_response os c code)) = next_conn c \<and>
       conn_inv (snd (prepare_error_response os c code))"
    using prepare_error_response_props conn_inv_error assms(3)
    by (metis prod.collapse)
  obtain rc req where pr:
    "http_parse_request (buf_bytes (request_buffer c)) (request_size c) = (rc, req)"
    by fastforce
  show ?thesis
  proof (cases "rc \<le> 0")
    case True
    then show ?thesis using assms(1) pr e [of 400]
      by (auto simp: process_request_def same_pool_def)
  next
    case pos: False
    show ?thesis
    proof (cases "http_safe_join (os_realpath os) (os_path_max os) kPathBufferSize
               (doc_root s) (path req)")
      case None
      then show ?thesis using assms(1) pr pos e [of 404]
        by (auto simp: process_request_def same_pool_def)
    next
      case (Some fp)
      show ?thesis
      proof (cases "os_stat os fp")
        case None
        then show ?thesis using assms(1) pr pos Some e [of 404]
          by (auto simp: process_request_def same_pool_def)
      next
        case st: (Some st)
        show ?thesis
        proof (cases "st_is_reg st")
          case False
          then show ?thesis using assms(1) pr pos Some st e [of 404]
            by (auto simp: process_request_def same_pool_def)
        next
          case True
          obtain r c1 n1 where pf: "prepare_file_response os c fp nt = (r, c1, n1)"
            using prod_cases3 by blast
          note p1 = prepare_file_response_props [OF pf]
          show ?thesis
          proof (cases "r < 0")
            case False
            then have "c' = c1" "same_pool s s'"
              using assms(1) pr pos Some st True pf
              by (auto simp: process_request_def same_pool_def)
            moreover have "conn_inv c1" using p1 False by (auto simp: conn_inv_def)
            ultimately show ?thesis using p1 by simp
          next
            case neg: True
            obtain r2 c2 where pe: "prepare_error_response os c1 500 = (r2, c2)"
              by fastforce
            have "conn_inv c1 \<or> state c1 = STATE_SENDING_HEADER"
              using p1 assms(2) by (auto simp: conn_inv_def)
            from conn_inv_error [OF pe this] prepare_error_response_props [OF pe] p1
            have "fd c2 = fd c \<and> next_conn c2 = next_conn c \<and> conn_inv c2" by simp
            moreover have "c' = c2" "same_pool s s'"
              using assms(1) pr pos Some st True pf neg pe
              by (auto simp: process_request_def same_pool_def)
            ultimately show ?thesis by simp
          qed
        qed
      qed
    qed
  qed
qed

lemma handle_read_event_props:
  assumes "handle_read_event os s c nt = (rc, s', c', nt')" and "conn_inv c"
  shows "fd c' = fd c \<and> next_conn c' = next_conn c \<and> conn_inv c' \<and> same_pool s s'"
proof (cases "state c = STATE_READING_REQUEST")
  case False
  then show ?thesis using assms by (simp add: handle_read_event_def same_pool_def)
next
  case rd: True
  obtain n ea got n1 where rv:
    "sys_recv nt (fd c) (request_capacity c - request_size c - 1) = ((n, ea, got), n1)"
    by (metis prod.collapse)
  show ?thesis
  proof (cases "n \<le> 0")
    case True
    then show ?thesis using assms rd rv
      by (auto simp: handle_read_event_def same_pool_def split: if_splits)
  next
    case pos: False
    define c1 where "c1 = c\<lparr>request_buffer :=
                            Some (take (request_size c) (buf_bytes (request_buffer c)) @ got),
                          request_size := request_size c + nat n\<rparr>"
    have c1: "state c1 = STATE_READING_REQUEST" "conn_inv c1" "fd c1 = fd c"
      "next_conn c1 = next_conn c"
      using rd assms(2) by (simp_all add: c1_def conn_inv_def)
    have eq: "handle_read_event os s c nt =
        (if strstr (c_str (buf_bytes (request_buffer c1))) CRLFCRLF \<noteq> None
         then (case process_request os s c1 n1 of (s2, c2, n2) \<Rightarrow> (0, s2, c2, n2))
         else if request_size c1 \<ge> request_capacity c1 - 1
         then (0, s, snd (prepare_error_response os c1 413), n1)
         else (0, s, c1, n1))"
      using rd rv pos by (simp add: handle_read_event_def c1_def Let_def)
    show ?thesis
    proof (cases "strstr (c_str (buf_bytes (request_buffer c1))) CRLFCRLF")
      case (Some k)
      obtain s2 c2 n2 where pq: "process_request os s c1 n1 = (s2, c2, n2)"
        using prod_cases3 by blast
      have "c' = c2" "s' = s2"
        using assms(1) Some pq unfolding eq by simp_all
      with process_request_props [OF pq c1(1) c1(2)] c1 show ?thesis by simp
    next
      case None
      obtain r2 c2 where pe: "prepare_error_response os c1 413 = (r2, c2)" by fastforce
      have "s' = s" "c' = c1 \<or> c' = c2"
        using assms(1) None pe unfolding eq by (auto split: if_splits)
      with conn_inv_error [OF pe] prepare_error_response_props [OF pe] c1
      show ?thesis by (auto simp: same_pool_def)
    qed
  qed
qed

lemma send_response_header_props:
  assumes "send_response_header c nt = (r, c', nt')" and "conn_inv c"
  shows "fd c' = fd c \<and> next_conn c' = next_conn c \<and> conn_inv c' \<and> file_fd c' = file_fd c"
proof (cases "state c = STATE_SENDING_HEADER")
  case False
  then show ?thesis using assms by (simp add: send_response_header_def)
next
  case True
  obtain n ea n1 where sv: "sys_send nt (fd c)
                (take (response_size c - response_sent c)
                   (drop (response_sent c) (buf_bytes (response_buffer c)))) = ((n, ea), n1)"
    by (metis prod.collapse)
  show ?thesis using assms True sv
    by (auto simp: send_response_header_def Let_def conn_inv_def split: if_splits)
qed

lemma send_response_file_props:
  assumes "send_response_file os c nt = (r, c', nt')" and "conn_inv c"
  shows "fd c' = fd c \<and> next_conn c' = next_conn c \<and> conn_inv c'"
proof (cases "state c = STATE_SENDING_FILE \<and> file_fd c \<ge> 0")
  case False
  then show ?thesis using assms by (auto simp: send_response_file_def)
next
  case True
  define to_read where "to_read = (if file_offset c + int kResponseBufferSize > file_size c
               then file_size c - file_offset c else int kResponseBufferSize)"
  show ?thesis
  proof (cases "os_pread os (file_fd c) (nat to_read) (file_offset c)")
    case None
    then show ?thesis using assms True
      by (auto simp: send_response_file_def Let_def to_read_def split: if_splits)
  next
    case (Some bytes)
    obtain n ea n1 where sv: "sys_send nt (fd c) (take (nat to_read) bytes) = ((n, ea), n1)"
      by (metis prod.collapse)
    show ?thesis using assms True Some sv
      by (auto simp: send_response_file_def Let_def to_read_def conn_inv_def split: if_splits)
  qed
qed

lemma send_response_props:
  assumes "send_response os c nt = (r, c', nt')" and "conn_inv c"
  shows "fd c' = fd c \<and> next_conn c' = next_conn c \<and> conn_inv c'"
proof -
  obtain r1 c1 n1 where h: "send_response_header c nt = (r1, c1, n1)"
    using prod_cases3 by blast
  note p = send_response_header_props [OF h assms(2)]
  show ?thesis
  proof (cases r1)
    case (Some rc)
    then show ?thesis using assms(1) h p by (simp add: send_response_def)
  next
    case None
    then have "send_response_file os c1 n1 = (r, c', nt')"
      using assms(1) h by (simp add: send_response_def)
    from send_response_file_props [OF this] p show ?thesis by simp
  qed
qed

lemma handle_write_event_props:
  assumes "handle_write_event os s c nt = (rc, s', c', nt')" and "conn_inv c"
  shows "fd c' = fd c \<and> next_conn c' = next_conn c \<and> conn_inv c' \<and> same_pool s s'"
proof (cases "state c = STATE_SENDING_HEADER \<or> state c = STATE_SENDING_FILE")
  case False
  then show ?thesis using assms by (auto simp: handle_write_event_def same_pool_def)
next
  case True
  obtain r c1 n1 where h: "send_response os c nt = (r, c1, n1)"
    using prod_cases3 by blast
  have "c' = c1" "s' = s" using assms(1) True h by (auto simp: handle_write_event_def)
  with send_response_props [OF h assms(2)] show ?thesis by (simp add: same_pool_def)
qed

lemma server_inv_rel: "server_inv n s = (\<exists>xs. inv_rel n s xs)"
  by (auto simp: server_inv_def pool_inv_rel inv_rel_def pool_rel_def list_all_length)


lemma pool_rel_same: "same_pool s s' \<Longrightarrow> pool_rel n s xs \<Longrightarrow> pool_rel n s' xs"
  by (simp add: same_pool_def pool_rel_def)

lemma inv_rel_put:
  assumes i: "inv_rel n s xs" and ci: "ci < n" "ci \<notin> set xs"
    and c: "fd c \<ge> 0" "conn_inv c"
  shows "inv_rel n (s\<lparr>connections := (connections s)[ci := c]\<rparr>) xs"
proof -
  have l: "length (connections s) = n" using i by (simp add: inv_rel_def pool_rel_def)
  have "pool_rel n (s\<lparr>connections := (connections s)[ci := c]\<rparr>) xs"
    using i ci by (simp add: inv_rel_def update_pool)
  moreover have "fd_rel n (s\<lparr>connections := (connections s)[ci := c]\<rparr>) xs"
    using i ci c l by (auto simp: inv_rel_def fd_rel_def nth_list_update)
  moreover have "\<forall>i<n. fd ((connections s)[ci := c] ! i) \<ge> 0 \<longrightarrow>
                       conn_inv ((connections s)[ci := c] ! i)"
    using i c l ci by (auto simp: inv_rel_def nth_list_update)
  ultimately show ?thesis by (simp add: inv_rel_def)
qed

lemma inv_rel_free:
  assumes p: "pool_rel n s xs" and ci: "ci < n" "ci \<notin> set xs"
    and f: "\<forall>i<n. i \<noteq> ci \<longrightarrow> (fd (connections s ! i) < 0) = (i \<in> set xs)"
    and c: "\<forall>i<n. i \<noteq> ci \<longrightarrow> fd (connections s ! i) \<ge> 0 \<longrightarrow> conn_inv (connections s ! i)"
  shows "inv_rel n (fst (free_connection s ci nt)) (ci # xs)"
proof -
  have l: "length (connections s) = n" using p by (simp add: pool_rel_def)
  have "fd_rel n (fst (free_connection s ci nt)) (ci # xs)"
    unfolding fd_rel_def
  proof (intro allI impI)
    fix i assume "i < n"
    show "(fd (connections (fst (free_connection s ci nt)) ! i) < 0) = (i \<in> set (ci # xs))"
    proof (cases "i = ci")
      case True
      then show ?thesis using free_fd [of ci s nt] ci l by simp
    next
      case False
      then show ?thesis using free_others [of i ci s nt] f \<open>i < n\<close> by simp
    qed
  qed
  moreover have "\<forall>i<n. fd (connections (fst (free_connection s ci nt)) ! i) \<ge> 0 \<longrightarrow>
                       conn_inv (connections (fst (free_connection s ci nt)) ! i)"
  proof (intro allI impI)
    fix i assume a: "i < n" "fd (connections (fst (free_connection s ci nt)) ! i) \<ge> 0"
    then have "i \<noteq> ci" using free_fd [of ci s nt] ci l by auto
    then show "conn_inv (connections (fst (free_connection s ci nt)) ! i)"
      using free_others [of i ci s nt] c a by simp
  qed
  ultimately show ?thesis using free_pool [OF p ci] by (simp add: inv_rel_def)
qed

lemma client_event_inv:
  assumes i: "inv_rel n s xs" and ci: "ci < n" and f: "fd (connections s ! ci) \<ge> 0"
  shows "\<exists>ys. inv_rel n (fst (client_event os flt ci (s, nt))) ys"
proof -
  define c where "c = connections s ! ci"
  have nx: "ci \<notin> set xs" using i ci f by (auto simp: inv_rel_def fd_rel_def)
  have ci0: "conn_inv c" using i ci f by (simp add: inv_rel_def c_def)
  obtain rc s1 c1 n1 where h:
    "(case flt of EVFILT_READ \<Rightarrow> handle_read_event os s c nt
               | EVFILT_WRITE \<Rightarrow> handle_write_event os s c nt) = (rc, s1, c1, n1)"
    using prod_cases4 by blast
  have p: "fd c1 = fd c \<and> next_conn c1 = next_conn c \<and> conn_inv c1 \<and> same_pool s s1"
    using h handle_read_event_props [of os s c nt rc s1 c1 n1]
      handle_write_event_props [of os s c nt rc s1 c1 n1] ci0
    by (cases flt) simp_all
  have cs: "connections s1 = connections s" using p by (simp add: same_pool_def)
  have i1: "inv_rel n s1 xs"
    using i p by (auto simp: inv_rel_def fd_rel_def pool_rel_same same_pool_def)
  define s2 where "s2 = s1\<lparr>connections := (connections s1)[ci := c1]\<rparr>"
  have i2: "inv_rel n s2 xs"
    unfolding s2_def using inv_rel_put [OF i1 ci nx] p f by (simp add: c_def)
  have ce: "client_event os flt ci (s, nt) =
            (if rc < 0 then close_connection s2 ci n1 else (s2, n1))"
    using h unfolding c_def s2_def by (simp add: client_event_def Let_def)
  show ?thesis
  proof (cases "rc < 0")
    case False
    then show ?thesis using ce i2 by auto
  next
    case True
    have "inv_rel n (fst (free_connection s2 ci n1)) (ci # xs)"
      using i2 ci nx by (intro inv_rel_free) (auto simp: inv_rel_def fd_rel_def)
    then show ?thesis using ce True by (auto simp: close_connection_def)
  qed
qed


lemma inv_except_put:
  "inv_except n s xs ci \<Longrightarrow> inv_except n (s\<lparr>connections := (connections s)[ci := c]\<rparr>) xs ci"
  by (auto simp: inv_except_def update_pool)

lemma inv_except_done:
  assumes "inv_except n s xs ci" "fd c \<ge> 0" "conn_inv c"
  shows "inv_rel n (s\<lparr>connections := (connections s)[ci := c]\<rparr>) xs"
proof -
  have l: "length (connections s) = n" using assms(1) by (simp add: inv_except_def pool_rel_def)
  show ?thesis
    using assms l
    by (auto simp: inv_except_def inv_rel_def fd_rel_def update_pool nth_list_update)
qed

lemma inv_except_free:
  "inv_except n s xs ci \<Longrightarrow> inv_rel n (fst (free_connection s ci nt)) (ci # xs)"
  by (rule inv_rel_free) (auto simp: inv_except_def)

lemma inv_except_alloc:
  assumes "inv_rel n s (x # xs)"
  shows "inv_except n (snd (alloc_connection s)) xs x"
proof -
  have p: "pool_rel n s (x # xs)" using assms by (simp add: inv_rel_def)
  have l: "length (connections s) = n" and x: "x < n" "x \<notin> set xs"
    using p by (auto simp: pool_rel_def)
  note a = alloc_some [OF p]
  show ?thesis
    unfolding inv_except_def
    using a(2) x assms l
    by (auto simp: a(1) inv_rel_def fd_rel_def)
qed

lemma accept_inv:
  "inv_rel n s xs \<Longrightarrow> \<exists>ys. inv_rel n (fst (accept_connections os pending (s, nt))) ys"
proof (induction pending arbitrary: s nt xs)
  case Nil
  then show ?case by auto
next
  case (Cons sock pending)
  show ?case
  proof (cases "sock < 0")
    case True
    then show ?thesis using Cons.prems by auto
  next
    case sock: False
    show ?thesis
    proof (cases xs)
      case Nil
      then have "alloc_connection s = (None, s)"
        using Cons.prems alloc_none [of n s] by (simp add: inv_rel_def)
      then have "accept_connections os (sock # pending) (s, nt) =
                 accept_connections os pending (s, sys_close nt sock)"
        using sock by simp
      then show ?thesis using Cons.IH [OF Cons.prems] by simp
    next
      case (Cons x xs')
      then have i: "inv_rel n s (x # xs')" using Cons.prems by simp
      then have p: "pool_rel n s (x # xs')" by (simp add: inv_rel_def)
      obtain s1 where a: "alloc_connection s = (Some x, s1)"
        using alloc_some(1) [OF p] by simp
      have e1: "inv_except n s1 xs' x" using inv_except_alloc [OF i] a by simp
      have x: "x < length (connections s1)"
        using e1 by (simp add: inv_except_def pool_rel_def)
      define conn where "conn = (connections s1 ! x)\<lparr>fd := sock\<rparr>"
      have "connections s1 ! x =
            reset_connection ((connections s ! x)\<lparr>next_conn := None\<rparr>)"
        using a alloc_some(1) [OF p] p by (auto simp: pool_rel_def)
      then have conn: "fd conn \<ge> 0" "conn_inv conn"
        using sock by (simp_all add: conn_def reset_connection_def conn_inv_def)
      define s2 where "s2 = s1\<lparr>connections := (connections s1)[x := conn]\<rparr>"
      have e2: "inv_except n s2 xs' x" unfolding s2_def by (rule inv_except_put [OF e1])
      define conn' where "conn' = (if request_buffer conn = None
                          then conn\<lparr>request_buffer := Some [],
                                    request_capacity := kRequestBufferSize\<rparr>
                          else conn)"
      have conn': "fd conn' \<ge> 0" "conn_inv conn'"
        using conn by (simp_all add: conn'_def conn_inv_def)
      define s3 where "s3 = s2\<lparr>connections := (connections s2)[x := conn']\<rparr>"
      have e3: "inv_except n s3 xs' x" unfolding s3_def by (rule inv_except_put [OF e2])
      have i3: "inv_rel n s3 xs'" unfolding s3_def by (rule inv_except_done [OF e2 conn'])
      have nth2: "connections s2 ! x = conn" using x by (simp add: s2_def)
      have step: "accept_connections os (sock # pending) (s, nt) =
          (if request_buffer conn = None \<and> \<not> os_malloc_ok os
           then accept_connections os pending (free_connection s2 x (sys_close nt sock))
           else if \<not> os_kevent_ok os
           then accept_connections os pending (close_connection s3 x nt)
           else accept_connections os pending (s3, nt))"
        using sock a
        by (simp add: Let_def conn_def s2_def s3_def conn'_def)
      show ?thesis
      proof (cases "request_buffer conn = None \<and> \<not> os_malloc_ok os")
        case True
        obtain s4 n4 where f: "free_connection s2 x (sys_close nt sock) = (s4, n4)"
          by fastforce
        have "inv_rel n s4 (x # xs')"
          using inv_except_free [OF e2, of "sys_close nt sock"] f by simp
        from Cons.IH [OF this, of n4] show ?thesis using step True f by simp
      next
        case False
        show ?thesis
        proof (cases "os_kevent_ok os")
          case True
          then show ?thesis using step False Cons.IH [OF i3, of nt] by auto
        next
          case ke: False
          obtain s4 n4 where f: "free_connection s3 x nt = (s4, n4)" by fastforce
          have "inv_rel n s4 (x # xs')"
            using inv_except_free [OF e3, of nt] f by simp
          from Cons.IH [OF this, of n4] show ?thesis
            using step False ke f by (auto simp: close_connection_def)
        qed
      qed
    qed
  qed
qed

lemma reachable_inv:
  assumes "0 < n" "reachable n sn"
  shows "\<exists>xs. inv_rel n (fst sn) xs"
  using assms(2)
proof (induction rule: reachable.induct)
  case (start kqd lfd root nt)
  have "inv_rel n (init_server n kqd lfd root) [0..<n]"
    using init_pool_rel [OF assms(1)] init_fd_rel [of n kqd lfd root]
    by (auto simp: inv_rel_def init_server_def)
  then show ?case by auto
next
  case (accept sn os pending)
  then obtain xs where "inv_rel n (fst sn) xs" by blast
  from accept_inv [OF this, of os pending "snd sn"] show ?case by simp
next
  case (event server nt ci os flt)
  then obtain xs where "inv_rel n server xs" by auto
  from client_event_inv [OF this event(2) event(3)] show ?case by simp
next
  case (answers server nt rq sq)
  then show ?case by simp
qed



subsection \<open>The pool keeps its count\<close>

lemma ex_accepted_eq:
  "ex_accepted =
    (\<lparr>kq = 3, listen_fd = 4, doc_root = ''/var/www'',
      connections =
        [zero_connection\<lparr>fd := 5, file_fd := -1, request_buffer := Some [],
           request_capacity := kRequestBufferSize\<rparr>,
         zero_connection\<lparr>fd := -1\<rparr>],
      free_list = Some 1, num_active = 1,
      total_requests = 0, total_bytes_sent = 0, total_connections = 1\<rparr>, ex_net)"
  by (simp add: ex_accepted_def init_server_def alloc_connection_def reset_connection_def
      zero_connection_def ex_os_def Let_def upt_rec)

lemma ex_accepted_reachable: "reachable 2 ex_accepted"
  unfolding ex_accepted_def by (rule reachable.accept) (rule reachable.start)



subsection \<open>A full pool refuses\<close>





lemma ex_aio_full_eq:
  "ex_aio_full =
    (\<lparr>a_listen_fd = 4, a_doc_root = ''/var/www'',
      clients = [(reset_client zero_client)\<lparr>a_fd := 5\<rparr>],
      num_clients = 1, a_total_requests = 0, a_total_bytes_sent = 0\<rparr>, ex_net)"
  by (simp add: ex_aio_full_def aio_init_server_def reset_client_def zero_client_def Let_def)


subsection \<open>When the file is open\<close>

lemma guess_index: "http_guess_type ''/var/www/index.html'' = ''text/html''"
  by (simp add: http_guess_type_def has_ext_def strcasecmp_eq_def tolower_def)

lemma dec_int_37: "dec_int 37 = ''37''"
  by code_simp

lemma build_200_index:
  "\<exists>h. http_build_200 kHeaderBufferSize 37 ''text/html'' = Some h \<and> h \<noteq> [] \<and> length h < 512"
  by (simp add: http_build_200_def kHeaderBufferSize_def dec_int_37 CRLF_def Let_def)

lemma safe_join_index:
  "http_safe_join (os_realpath ex_os) (os_path_max ex_os) kPathBufferSize ''/var/www''
     ''/index.html'' = Some ''/var/www/index.html''"
  by (simp add: http_safe_join_def ex_os_def kPathBufferSize_def)

lemma ex_request_facts:
  "length ex_request = 28" "take 4095 ex_request = ex_request"
  "strstr (c_str ex_request) CRLFCRLF = Some 24"
  "http_parse_request ex_request 28 =
     (1, zero_req\<lparr>complete := 1, req_method := ''GET'', path := ''/index.html''\<rparr>)"
  using parse_index by (simp_all add: ex_request_def c_str_def CRLFCRLF_def)

lemma ex_requested_conn:
  "\<exists>h. h \<noteq> [] \<and> length h < 512 \<and> fst ex_requested = (fst ex_accepted)
     \<lparr>connections := (connections (fst ex_accepted))
        [0 := (connections (fst ex_accepted) ! 0)
           \<lparr>request_buffer := Some ex_request,
            request_size := 28, file_fd := 7, file_size := 37, file_offset := 0,
            response_buffer := Some h, response_size := length h, response_sent := 0,
            state := STATE_SENDING_HEADER\<rparr>],
      total_requests := 1\<rparr>"
proof -
  obtain h where h: "http_build_200 kHeaderBufferSize 37 ''text/html'' = Some h"
    and hl: "h \<noteq> []" "length h < 512"
    using build_200_index by blast
  have os: "os_stat ex_os ''/var/www/index.html'' = Some \<lparr>st_is_reg = True, st_size = 37\<rparr>"
    "os_open ex_os ''/var/www/index.html'' = 7"
    "os_fstat ex_os 7 = Some \<lparr>st_is_reg = True, st_size = 37\<rparr>"
    "os_malloc_ok ex_os" "os_kevent_ok ex_os"
    by (simp_all add: ex_os_def)
  show ?thesis
    apply (rule exI [of _ h])
    apply (simp add: hl ex_requested_def ex_accepted_eq client_event_def handle_read_event_def
        sys_recv_def ex_net_def zero_connection_def kRequestBufferSize_def buf_bytes_def
        ex_request_facts process_request_def safe_join_index os
        prepare_file_response_def guess_index h Let_def)
    done
qed


lemma ex_requested_reachable: "reachable 2 ex_requested"
proof -
  have "reachable 2 (fst ex_accepted, snd ex_accepted)"
    using ex_accepted_reachable by simp
  then have "reachable 2 (fst ex_accepted,
      (snd ex_accepted)\<lparr>recvq := [Recvd ex_request], sendq := []\<rparr>)"
    by (rule reachable.answers)
  then show ?thesis
    unfolding ex_requested_def
    by (rule reachable.event) (simp_all add: ex_accepted_eq)
qed

lemma ex_requested_fields:
  "fd (connections (fst ex_requested) ! 0) = 5"
  "state (connections (fst ex_requested) ! 0) = STATE_SENDING_HEADER"
  "file_fd (connections (fst ex_requested) ! 0) = 7"
  using ex_requested_conn by (auto simp: ex_accepted_eq)

lemma ex_sending_reachable: "reachable 2 ex_sending"
proof -
  have "reachable 2 (fst ex_requested, snd ex_requested)"
    using ex_requested_reachable by simp
  then have "reachable 2 (fst ex_requested,
      (snd ex_requested)\<lparr>recvq := [], sendq := [Sent 512]\<rparr>)"
    by (rule reachable.answers)
  then show ?thesis
    unfolding ex_sending_def
    by (rule reachable.event) (simp_all add: ex_requested_fields)
qed

lemma ex_index_len: "length ex_index = 37" by (simp add: ex_index_def)

lemma ex_sending_fields:
  "fd (connections (fst ex_sending) ! 0) = 5 \<and>
   state (connections (fst ex_sending) ! 0) = STATE_SENDING_FILE \<and>
   file_fd (connections (fst ex_sending) ! 0) = 7"
proof -
  obtain h where hl: "h \<noteq> []" "length h < 512" and h: "fst ex_requested = (fst ex_accepted)
     \<lparr>connections := (connections (fst ex_accepted))
        [0 := (connections (fst ex_accepted) ! 0)
           \<lparr>request_buffer := Some ex_request,
            request_size := 28, file_fd := 7, file_size := 37, file_offset := 0,
            response_buffer := Some h, response_size := length h, response_sent := 0,
            state := STATE_SENDING_HEADER\<rparr>],
      total_requests := 1\<rparr>"
    using ex_requested_conn by blast
  have pr: "os_pread ex_os 7 37 0 = Some ex_index"
    by (simp add: ex_os_def ex_index_len)
  have ne: "ex_index \<noteq> []" by (simp add: ex_index_def)
  show ?thesis
    using hl ne
    by (simp add: ex_sending_def h ex_accepted_eq client_event_def handle_write_event_def
        send_response_def send_response_header_def send_response_file_def sys_send_def
        kResponseBufferSize_def pr ex_index_len buf_bytes_def Let_def close_connection_def)
qed


text \<open>
  Claim C3, as amended. In every state the kqueue server reaches, a connection that
  holds its socket and is in the state of sending the file has an open file
  (\<open>file_fd \<ge> 0\<close>), and a connection with an open file is in the state of sending
  the header or of sending the file: \<open>prepare_file_response\<close> opens the file when it
  builds the header.
\<close>

theorem file_handle_states:
  assumes "0 < n" and "reachable n (server, nt)"
    and "ci < n" and "fd (connections server ! ci) \<ge> 0"
  shows "(state (connections server ! ci) = STATE_SENDING_FILE \<longrightarrow>
            file_fd (connections server ! ci) \<ge> 0) \<and>
         (file_fd (connections server ! ci) \<ge> 0 \<longrightarrow>
            state (connections server ! ci) = STATE_SENDING_HEADER \<or>
            state (connections server ! ci) = STATE_SENDING_FILE)"
proof -
  obtain xs where "inv_rel n server xs"
    using reachable_inv [OF assms(1,2)] by auto
  then have "conn_inv (connections server ! ci)"
    using assms(3,4) by (simp add: inv_rel_def)
  then show ?thesis by (simp add: conn_inv_def)
qed

theorem file_handle_states_witness:
  "fd (connections (fst ex_sending) ! 0) = 5 \<and>
   state (connections (fst ex_sending) ! 0) = STATE_SENDING_FILE \<and>
   file_fd (connections (fst ex_sending) ! 0) \<ge> 0"
proof -
  have r: "reachable 2 (fst ex_sending, snd ex_sending)"
    using ex_sending_reachable by simp
  have f: "fd (connections (fst ex_sending) ! 0) \<ge> 0"
    using ex_sending_fields by simp
  from file_handle_states [OF _ r _ f] ex_sending_fields show ?thesis by simp
qed

text \<open>
  The claim as stated fails: after the request for \<open>/index.html\<close> the connection
  is in the state of sending the header and its file is open.
\<close>

theorem file_open_while_sending_header:
  "reachable 2 ex_requested \<and>
   fd (connections (fst ex_requested) ! 0) = 5 \<and>
   state (connections (fst ex_requested) ! 0) = STATE_SENDING_HEADER \<and>
   file_fd (connections (fst ex_requested) ! 0) = 7"
  using ex_requested_reachable ex_requested_fields by simp

subsection \<open>The longest path that parses\<close>




subsection \<open>A path that leaves the document root\<close>

lemma guess_passwd: "http_guess_type ''/var/www-secret/passwd'' = ''application/octet-stream''"
  by (simp add: http_guess_type_def has_ext_def strcasecmp_eq_def tolower_def)

lemma dec_int_10: "dec_int 10 = ''10''"
  by code_simp

lemma build_200_passwd:
  "http_build_200 kHeaderBufferSize 10 ''application/octet-stream'' = Some ex_escape_header"
  by (simp add: http_build_200_def kHeaderBufferSize_def dec_int_10 CRLF_def Let_def ex_escape_header_def)

lemma safe_join_escape:
  "http_safe_join (os_realpath ex_os) (os_path_max ex_os) kPathBufferSize ''/var/www''
     ''/../www-secret/passwd'' = Some ''/var/www-secret/passwd''"
  by (simp add: http_safe_join_def ex_os_def kPathBufferSize_def)

lemma ex_escape_request_facts:
  "length ex_escape_request = 38" "take 4095 ex_escape_request = ex_escape_request"
  "strstr (c_str ex_escape_request) CRLFCRLF = Some 34"
  "http_parse_request ex_escape_request 38 =
     (1, zero_req\<lparr>complete := 1, req_method := ''GET'', path := ''/../www-secret/passwd''\<rparr>)"
  using parse_get_line [of "''/../www-secret/passwd''" "''HTTP/1.1''" 38]
  by (simp_all add: ex_escape_request_def c_str_def CRLFCRLF_def path_field_size_def)

lemma ex_escape_eq:
  "ex_escape = ((fst ex_accepted)
     \<lparr>connections := (connections (fst ex_accepted))
        [0 := (connections (fst ex_accepted) ! 0)
           \<lparr>request_buffer := Some ex_escape_request,
            request_size := 38, file_fd := 8, file_size := 10, file_offset := 0,
            response_buffer := Some ex_escape_header,
            response_size := length ex_escape_header, response_sent := 0,
            state := STATE_SENDING_HEADER\<rparr>],
      total_requests := 1\<rparr>,
     \<lparr>recvq = [], sendq = [], log = [IoRecv 5 38 False]\<rparr>)"
proof -
  have os: "os_stat ex_os ''/var/www-secret/passwd'' = Some \<lparr>st_is_reg = True, st_size = 10\<rparr>"
    "os_open ex_os ''/var/www-secret/passwd'' = 8"
    "os_fstat ex_os 8 = Some \<lparr>st_is_reg = True, st_size = 10\<rparr>"
    "os_malloc_ok ex_os" "os_kevent_ok ex_os"
    by (simp_all add: ex_os_def)
  show ?thesis
    by (simp add: ex_escape_def ex_accepted_eq client_event_def handle_read_event_def
        sys_recv_def ex_net_def zero_connection_def kRequestBufferSize_def buf_bytes_def
        ex_escape_request_facts process_request_def safe_join_escape os
        prepare_file_response_def guess_passwd build_200_passwd Let_def)
qed

lemma ex_secret_len: "length ex_secret = 10" by (simp add: ex_secret_def)
lemma ex_escape_header_len: "length ex_escape_header = 123" by (simp add: ex_escape_header_def CRLF_def)

lemma ex_escape_sent_log:
  "log (snd ex_escape_sent) =
     [IoRecv 5 38 False, IoSend 5 ex_escape_header 123 False, IoSend 5 ex_secret 10 False,
      IoClose 5, IoClose 8]"
proof -
  have pr: "os_pread ex_os 8 10 0 = Some ex_secret"
    by (simp add: ex_os_def ex_secret_len)
  have ne: "ex_secret \<noteq> []" by (simp add: ex_secret_def)
  show ?thesis
    using ne
    by (simp add: ex_escape_sent_def ex_escape_eq ex_accepted_eq client_event_def handle_write_event_def
        send_response_def send_response_header_def send_response_file_def sys_send_def
        kResponseBufferSize_def pr ex_secret_len ex_escape_header_len buf_bytes_def Let_def
        close_connection_def free_connection_def sys_close_def zero_connection_def)
qed

text \<open>
  Claim C1, at an input where the code breaks it. With the document root \<open>/var/www\<close>
  and the request for \<open>/../www-secret/passwd\<close>, \<open>realpath\<close> resolves the joined path
  to \<open>/var/www-secret/passwd\<close>, which is outside the root; \<open>http_safe_join\<close> accepts
  it, because the first 8 bytes are those of the root, and the kqueue server answers
  200 and sends the file.
\<close>

theorem sibling_directory_served:
  "http_safe_join (os_realpath ex_os) (os_path_max ex_os) kPathBufferSize ''/var/www''
     ''/../www-secret/passwd'' = Some ''/var/www-secret/passwd'' \<and>
   \<not> path_within ''/var/www'' ''/var/www-secret/passwd'' \<and>
   state (connections (fst ex_escape) ! 0) = STATE_SENDING_HEADER \<and>
   file_fd (connections (fst ex_escape) ! 0) = 8 \<and>
   take 15 (wire 5 (log (snd ex_escape_sent))) = ''HTTP/1.1 200 OK'' \<and>
   drop 123 (wire 5 (log (snd ex_escape_sent))) = ex_secret"
  by (simp add: safe_join_escape path_within_def ex_escape_eq ex_accepted_eq
      ex_escape_sent_log ex_escape_header_len ex_secret_len)
     (simp add: ex_escape_header_def)

subsection \<open>A request that fills the buffer\<close>

lemma error_413_len: "length error_413 = 97" by (simp add: error_413_def CRLF_def)

lemma prepare_error_413:
  "os_malloc_ok os \<or> response_buffer conn \<noteq> None \<Longrightarrow>
   snd (prepare_error_response os conn 413) =
     conn\<lparr>response_buffer := Some error_413, response_size := length error_413,
          response_sent := 0, state := STATE_SENDING_HEADER\<rparr>"
  by (auto simp: prepare_error_response_def error_response_text_def error_413_len
      kHeaderBufferSize_def Let_def)

lemma strstr_replicate: "ch \<noteq> CHR 0x0D \<Longrightarrow> strstr (replicate k ch) CRLFCRLF = None"
  by (induction k) (auto simp: CRLFCRLF_def)

lemma c_str_replicate: "ch \<noteq> CHR 0x00 \<Longrightarrow> c_str (replicate k ch) = replicate k ch"
  by (simp add: c_str_id)


lemma buf_bytes_Some: "buf_bytes (Some b) = b"
  by (simp add: buf_bytes_def)

lemma wire_append: "wire s (a @ b) = wire s a @ wire s b"
  by (induction s a rule: wire.induct) auto

lemma read_event_413:
  assumes rd: "state conn = STATE_READING_REQUEST"
    and rq: "recvq nt = Recvd d # rq"
    and got: "got = take (request_capacity conn - request_size conn - 1) d" "got \<noteq> []"
    and buf: "buf = take (request_size conn) (buf_bytes (request_buffer conn)) @ got"
    and noterm: "strstr (c_str buf) CRLFCRLF = None"
    and full: "request_capacity conn - 1 \<le> request_size conn + length got"
    and m: "os_malloc_ok os \<or> response_buffer conn \<noteq> None"
  shows "handle_read_event os server conn nt =
      (0, server,
       conn\<lparr>request_buffer := Some buf, request_size := request_size conn + length got,
            response_buffer := Some error_413, response_size := length error_413,
            response_sent := 0, state := STATE_SENDING_HEADER\<rparr>,
       nt\<lparr>recvq := rq, log := log nt @ [IoRecv (fd conn) (int (length got)) False]\<rparr>)"
proof -
  define c1 where "c1 = conn\<lparr>request_buffer := Some buf,
                          request_size := request_size conn + length got\<rparr>"
  have rv: "sys_recv nt (fd conn) (request_capacity conn - request_size conn - 1) =
      ((int (length got), False, got),
       nt\<lparr>recvq := rq, log := log nt @ [IoRecv (fd conn) (int (length got)) False]\<rparr>)"
    using rq got(1) by (simp add: sys_recv_def Let_def)
  have m1: "os_malloc_ok os \<or> response_buffer c1 \<noteq> None" using m by (simp add: c1_def)
  have "handle_read_event os server conn nt =
      (0, server, snd (prepare_error_response os c1 413),
       nt\<lparr>recvq := rq, log := log nt @ [IoRecv (fd conn) (int (length got)) False]\<rparr>)"
    using rd rv got(2) noterm full
    by (simp add: handle_read_event_def Let_def c1_def buf buf_bytes_Some)
  then show ?thesis
    unfolding prepare_error_413 [OF m1] by (simp add: c1_def)
qed

lemma write_event_header_only:
  assumes ci: "ci < length (connections server)" and c: "connections server ! ci = conn"
    and st: "state conn = STATE_SENDING_HEADER" and nf: "file_fd conn < 0"
    and rb: "response_buffer conn = Some resp" "response_size conn = length resp"
       "response_sent conn = 0" "resp \<noteq> []"
    and sq: "sendq nt = Sent k # sq" "length resp \<le> k"
  shows "client_event os EVFILT_WRITE ci (server, nt) =
     close_connection
       (server\<lparr>connections := (connections server)[ci := conn\<lparr>response_sent := length resp\<rparr>]\<rparr>)
       ci (nt\<lparr>sendq := sq, log := log nt @ [IoSend (fd conn) resp (int (length resp)) False]\<rparr>)"
proof -
  have sv: "sys_send nt (fd conn) resp =
     ((int (length resp), False),
      nt\<lparr>sendq := sq, log := log nt @ [IoSend (fd conn) resp (int (length resp)) False]\<rparr>)"
    using sq by (simp add: sys_send_def Let_def min_def)
  have "send_response os conn nt =
     (-1, conn\<lparr>response_sent := length resp\<rparr>,
      nt\<lparr>sendq := sq, log := log nt @ [IoSend (fd conn) resp (int (length resp)) False]\<rparr>)"
    using st nf rb sv
    by (simp add: send_response_def send_response_header_def buf_bytes_def Let_def)
  then show ?thesis
    using st c by (simp add: client_event_def handle_write_event_def Let_def)
qed

lemma aio_read_at_capacity:
  assumes "a_request_size client = aio_kRequestBufferSize - 1"
    and "handle_client_read os aserver client nt = (aserver', client', nt')"
  shows "(client' = client \<or> client' = fst (close_client client nt)) \<and>
         wire (a_fd client) (log nt') = wire (a_fd client) (log nt)"
proof -
  have cc: "\<And>n. wire (a_fd client) (log (snd (close_client client n))) =
                 wire (a_fd client) (log n)"
    by (simp add: close_client_def sys_close_def wire_append Let_def)
  have cf: "\<And>n. fst (close_client client n) = fst (close_client client nt)"
    by (simp add: close_client_def Let_def split: prod.splits)
  show ?thesis
  proof (cases "recvq nt")
    case Nil
    then show ?thesis using assms
      by (auto simp: handle_client_read_def sys_recv_def wire_append)
  next
    case (Cons r rs)
    show ?thesis
    proof (cases r)
      case (Recvd d)
      obtain c2 n2 where cl: "close_client client
          (nt\<lparr>recvq := rs, log := log nt @ [IoRecv (a_fd client) 0 False]\<rparr>) = (c2, n2)"
        by fastforce
      have "client' = c2" "nt' = n2"
        using assms Cons Recvd cl
        by (simp_all add: handle_client_read_def sys_recv_def Let_def)
      then show ?thesis
        using cl cc [of "nt\<lparr>recvq := rs, log := log nt @ [IoRecv (a_fd client) 0 False]\<rparr>"]
          cf [of "nt\<lparr>recvq := rs, log := log nt @ [IoRecv (a_fd client) 0 False]\<rparr>"]
        by (simp add: wire_append)
    next
      case RecvAgain
      then show ?thesis using assms Cons
        by (auto simp: handle_client_read_def sys_recv_def wire_append)
    next
      case RecvError
      obtain c2 n2 where cl: "close_client client
          (nt\<lparr>recvq := rs, log := log nt @ [IoRecv (a_fd client) (-1) False]\<rparr>) = (c2, n2)"
        by fastforce
      have "client' = c2" "nt' = n2"
        using assms Cons RecvError cl
        by (simp_all add: handle_client_read_def sys_recv_def Let_def)
      then show ?thesis
        using cl cc [of "nt\<lparr>recvq := rs, log := log nt @ [IoRecv (a_fd client) (-1) False]\<rparr>"]
          cf [of "nt\<lparr>recvq := rs, log := log nt @ [IoRecv (a_fd client) (-1) False]\<rparr>"]
        by (simp add: wire_append)
    qed
  qed
qed


lemma ex_flood_conn0:
  "connections (fst ex_accepted) ! 0 =
     zero_connection\<lparr>fd := 5, file_fd := -1, request_buffer := Some [],
           request_capacity := kRequestBufferSize\<rparr>"
  by (simp add: ex_accepted_eq)

lemma ex_aio_flood_eq:
  "ex_aio_flood =
     (fst ex_aio_full,
      (clients (fst ex_aio_full) ! 0)
         \<lparr>a_request_buffer := replicate 8191 CHR ''a'', a_request_size := 8191\<rparr>,
      \<lparr>recvq = [Recvd ''aaaa''], sendq = [], log = [IoRecv 5 8191 False]\<rparr>)"
  by (simp add: ex_aio_flood_def ex_aio_full_eq handle_client_read_def sys_recv_def ex_net_def
      aio_kRequestBufferSize_def reset_client_def zero_client_def c_str_replicate
      strstr_replicate Let_def)

text \<open>
  The claim as stated fails for the select server: 8191 bytes without a blank line fill
  its buffer and no response is prepared; at the next read \<open>recv\<close> is given a length
  of 0, returns 0, and the client is closed with nothing sent.
\<close>

theorem select_server_no_413:
  "a_request_size (fst (snd ex_aio_flood)) = aio_kRequestBufferSize - 1 \<and>
   strstr (c_str (a_request_buffer (fst (snd ex_aio_flood)))) CRLFCRLF = None \<and>
   a_fd (fst (snd ex_aio_flood)) = 5 \<and>
   a_state (fst (snd ex_aio_flood)) = AIO_STATE_READING_REQUEST \<and>
   a_response_buffer (fst (snd ex_aio_flood)) = None \<and>
   a_fd (fst (snd ex_aio_flood_again)) = -1 \<and>
   a_response_buffer (fst (snd ex_aio_flood_again)) = None \<and>
   log (snd (snd ex_aio_flood_again)) = [IoRecv 5 8191 False, IoRecv 5 0 False, IoClose 5]"
  by (simp add: ex_aio_flood_again_def ex_aio_flood_eq ex_aio_full_eq handle_client_read_def
      sys_recv_def aio_kRequestBufferSize_def reset_client_def zero_client_def
      c_str_replicate strstr_replicate close_client_def sys_close_def Let_def)

subsection \<open>Short writes\<close>

lemma sys_send_Sent:
  "sendq nt = Sent k # rest \<Longrightarrow>
   sys_send nt sock bytes =
     ((int (min k (length bytes)), False),
      nt\<lparr>sendq := rest,
         log := log nt @ [IoSend sock bytes (int (min k (length bytes))) False]\<rparr>)"
  by (simp add: sys_send_def Let_def)

lemma sys_send_empty:
  "sendq nt = [] \<Longrightarrow>
   sys_send nt sock bytes = ((-1, True), nt\<lparr>log := log nt @ [IoSend sock bytes (-1) True]\<rparr>)"
  by (simp add: sys_send_def)

text \<open>The file part, on a connection that is sending the file.\<close>

lemma send_file_step:
  assumes s: "sending sock f hdr data m c" and m: "length hdr \<le> m"
    and fl: "\<forall>count off. 0 \<le> off \<longrightarrow> os_pread os f count off = Some (take count (drop (nat off) data))"
    and q: "sendq nt = Sent k # rest" "0 < k"
  shows "\<exists>n c' rc. 0 < n \<and> m + n \<le> length hdr + length data \<and>
     send_response_file os c nt =
       (rc, c', nt\<lparr>sendq := rest,
                  log := log nt @ [IoSend sock (take (min (length data - (m - length hdr)) kResponseBufferSize)
                       (drop (m - length hdr) data)) (int n) False]\<rparr>) \<and>
     n \<le> min (length data - (m - length hdr)) kResponseBufferSize \<and>
     (if m + n = length hdr + length data then rc = -1
      else rc = 0 \<and> sending sock f hdr data (m + n) c')"
proof -
  define off where "off = m - length hdr"
  have st: "state c = STATE_SENDING_FILE" "file_fd c = f" "0 \<le> f" "fd c = sock"
    "file_size c = int (length data)" "file_offset c = int off" "off < length data"
    using s m by (simp_all add: sending_def off_def)
  define tr where "tr = min (length data - off) kResponseBufferSize"
  have tr_pos: "0 < tr" using st(7) by (simp add: tr_def kResponseBufferSize_def)
  have to_read: "(if file_offset c + int kResponseBufferSize > file_size c
               then file_size c - file_offset c else int kResponseBufferSize) = int tr"
    using st by (auto simp: tr_def min_def)
  define chunk where "chunk = take tr (drop off data)"
  have pr: "os_pread os (file_fd c) tr (file_offset c) = Some chunk"
    using fl st by (simp add: chunk_def)
  have cl: "length chunk = tr" using st(7) by (simp add: chunk_def tr_def)
  have cne: "chunk \<noteq> []" using cl tr_pos by auto
  have tk: "take tr chunk = chunk" using cl by simp
  define n where "n = min k tr"
  have n: "0 < n" "n \<le> tr" using q(2) tr_pos by (simp_all add: n_def)
  have sv: "sys_send nt sock chunk =
     ((int n, False), nt\<lparr>sendq := rest, log := log nt @ [IoSend sock chunk (int n) False]\<rparr>)"
    using sys_send_Sent [OF q(1), of sock chunk] by (simp add: n_def cl)
  define c' where "c' = c\<lparr>response_buffer := Some chunk, file_offset := int off + int n\<rparr>"
  have res: "send_response_file os c nt =
     ((if int off + int n \<ge> int (length data) then -1 else 0), c',
      nt\<lparr>sendq := rest, log := log nt @ [IoSend sock chunk (int n) False]\<rparr>)"
    using st to_read pr cne tk sv n
    by (simp add: send_response_file_def Let_def c'_def)
  have le: "m + n \<le> length hdr + length data"
    using n m st(7) by (auto simp: tr_def off_def)
  define rc where "rc = (if int off + int n \<ge> int (length data) then -1 else 0::int)"
  have A: "if m + n = length hdr + length data then rc = -1
        else rc = 0 \<and> sending sock f hdr data (m + n) c'"
    using st m n le by (auto simp: sending_def c'_def off_def rc_def)
  have B: "n \<le> min (length data - (m - length hdr)) kResponseBufferSize"
    using n by (simp add: tr_def off_def)
  have C: "send_response_file os c nt =
       (rc, c', nt\<lparr>sendq := rest,
                  log := log nt @ [IoSend sock (take (min (length data - (m - length hdr)) kResponseBufferSize)
                       (drop (m - length hdr) data)) (int n) False]\<rparr>)"
    using res by (simp add: rc_def chunk_def tr_def off_def)
  show ?thesis
    apply (rule exI [of _ n])
    apply (rule exI [of _ c'])
    apply (rule exI [of _ rc])
    using n(1) le A B C apply blast
    done
qed


lemma wire_snoc_send:
  "wire sock (lg @ [IoSend sock bytes (int n) ea]) = wire sock lg @ (if 0 < n then take n bytes else [])"
  by (simp add: wire_append)

lemma wire_snoc_fail:
  "wire sock (lg @ [IoSend d bytes (-1) ea]) = wire sock lg"
  by (simp add: wire_append)

lemma file_step_ok:
  assumes s: "sending sock f hdr data m c" and m: "length hdr \<le> m"
    and fl: "\<forall>count off. 0 \<le> off \<longrightarrow> os_pread os f count off = Some (take count (drop (nat off) data))"
    and q: "list_all accepts (sendq nt)"
  shows "step_ok sock f hdr data m nt (send_response_file os c nt)"
proof (cases "sendq nt")
  case Nil
  define off where "off = m - length hdr"
  have st: "state c = STATE_SENDING_FILE" "file_fd c = f" "0 \<le> f" "fd c = sock"
    "file_size c = int (length data)" "file_offset c = int off" "off < length data"
    using s m by (simp_all add: sending_def off_def)
  define tr where "tr = min (length data - off) kResponseBufferSize"
  have tr_pos: "0 < tr" using st(7) by (simp add: tr_def kResponseBufferSize_def)
  have to_read: "(if file_offset c + int kResponseBufferSize > file_size c
               then file_size c - file_offset c else int kResponseBufferSize) = int tr"
    using st by (auto simp: tr_def min_def)
  define chunk where "chunk = take tr (drop off data)"
  have pr: "os_pread os (file_fd c) tr (file_offset c) = Some chunk"
    using fl st by (simp add: chunk_def)
  have cl: "length chunk = tr" using st(7) by (simp add: chunk_def tr_def)
  have cne: "chunk \<noteq> []" using cl tr_pos by auto
  have tk: "take tr chunk = chunk" using cl by simp
  have res: "send_response_file os c nt =
     (0, c\<lparr>response_buffer := Some chunk\<rparr>,
      nt\<lparr>log := log nt @ [IoSend sock chunk (-1) True]\<rparr>)"
    using st to_read pr cne tk tr_pos sys_send_empty [OF Nil, of sock chunk]
    by (simp add: send_response_file_def Let_def)
  have s': "sending sock f hdr data m (c\<lparr>response_buffer := Some chunk\<rparr>)"
    using s m by (simp add: sending_def)
  have lt: "m \<noteq> length hdr + length data" using m st(7) by (simp add: off_def)
  show ?thesis
    unfolding res step_ok_def
    using Nil s' lt m st(7)
    by (auto simp: wire_snoc_fail off_def intro!: exI [of _ m])
next
  case (Cons r rest)
  then obtain k where r: "r = Sent k" "0 < k" and qr: "list_all accepts rest"
    using q by (cases r) auto
  from send_file_step [OF s m fl, of nt k rest] Cons r
  obtain n c' rc where n: "0 < n" "m + n \<le> length hdr + length data"
    and res: "send_response_file os c nt =
       (rc, c', nt\<lparr>sendq := rest,
                  log := log nt @ [IoSend sock (take (min (length data - (m - length hdr)) kResponseBufferSize)
                       (drop (m - length hdr) data)) (int n) False]\<rparr>)"
    and nb: "n \<le> min (length data - (m - length hdr)) kResponseBufferSize"
    and fin: "if m + n = length hdr + length data then rc = -1
      else rc = 0 \<and> sending sock f hdr data (m + n) c'"
    by auto
  have tk: "take n (take (min (length data - (m - length hdr)) kResponseBufferSize)
                       (drop (m - length hdr) data)) = take n (drop m (hdr @ data))"
    using nb m by (simp add: min_absorb2)
  show ?thesis
    unfolding res step_ok_def
    using n fin qr Cons tk
    by (auto simp: wire_snoc_send intro!: exI [of _ "m + n"])
qed


lemma send_response_step_ok:
  assumes s: "sending sock f hdr data m c"
    and fl: "\<forall>count off. 0 \<le> off \<longrightarrow> os_pread os f count off = Some (take count (drop (nat off) data))"
    and q: "list_all accepts (sendq nt)"
  shows "step_ok sock f hdr data m nt (send_response os c nt)"
proof (cases "m < length hdr")
  case False
  then have "state c = STATE_SENDING_FILE" using s by (simp add: sending_def)
  then have "send_response os c nt = send_response_file os c nt"
    by (simp add: send_response_def send_response_header_def)
  then show ?thesis using file_step_ok [OF s _ fl q] False by simp
next
  case True
  then have st: "state c = STATE_SENDING_HEADER" "response_buffer c = Some hdr"
    "response_size c = length hdr" "response_sent c = m" "file_offset c = 0"
    "fd c = sock" "file_fd c = f" "0 \<le> f" "file_size c = int (length data)"
    using s by (simp_all add: sending_def)
  define offered where "offered = take (length hdr - m) (drop m hdr)"
  have off: "offered = drop m hdr" by (simp add: offered_def)
  show ?thesis
  proof (cases "sendq nt")
    case Nil
    have "send_response os c nt =
          (0, c, nt\<lparr>log := log nt @ [IoSend sock offered (-1) True]\<rparr>)"
      using st sys_send_empty [OF Nil, of sock offered]
      by (simp add: send_response_def send_response_header_def buf_bytes_def offered_def Let_def)
    then show ?thesis
      unfolding step_ok_def using Nil s True
      by (auto simp: wire_snoc_fail intro!: exI [of _ m])
  next
    case (Cons r rest)
    then obtain k where r: "r = Sent k" "0 < k" and qr: "list_all accepts rest"
      using q by (cases r) auto
    define n where "n = min k (length hdr - m)"
    have n: "0 < n" "m + n \<le> length hdr" using r(2) True by (simp_all add: n_def)
    define nt1 where "nt1 = nt\<lparr>sendq := rest, log := log nt @ [IoSend sock offered (int n) False]\<rparr>"
    have sv: "sys_send nt sock offered = ((int n, False), nt1)"
      using sys_send_Sent [of nt k rest sock offered] Cons r
      by (simp add: n_def nt1_def off)
    have w1: "wire sock (log nt1) = wire sock (log nt) @ take n (drop m (hdr @ data))"
      using n by (simp add: nt1_def wire_snoc_send off)
    show ?thesis
    proof (cases "m + n < length hdr")
      case part: True
      have "send_response os c nt = (0, c\<lparr>response_sent := m + n\<rparr>, nt1)"
        using st sv n part
        by (simp add: send_response_def send_response_header_def send_response_file_def
            buf_bytes_def offered_def [symmetric] Let_def)
      moreover have "sending sock f hdr data (m + n) (c\<lparr>response_sent := m + n\<rparr>)"
        using s True part by (simp add: sending_def)
      ultimately show ?thesis
        unfolding step_ok_def using w1 qr Cons n part
        by (auto simp: nt1_def intro!: exI [of _ "m + n"])
    next
      case False
      then have full: "m + n = length hdr" using n by simp
      define c1 where "c1 = c\<lparr>state := STATE_SENDING_FILE, response_sent := 0\<rparr>"
      have hd: "send_response os c nt = send_response_file os c1 nt1"
        using st sv n full
        by (simp add: send_response_def send_response_header_def
            buf_bytes_def offered_def [symmetric] Let_def c1_def)
      show ?thesis
      proof (cases "data = []")
        case True
        have "send_response_file os c1 nt1 = (-1, c1, nt1)"
          using st True by (simp add: send_response_file_def c1_def Let_def)
        then show ?thesis
          unfolding hd step_ok_def using w1 qr Cons n full True
          by (auto simp: nt1_def intro!: exI [of _ "length hdr"])
      next
        case ne: False
        have s1: "sending sock f hdr data (length hdr) c1"
          using st ne by (simp add: sending_def c1_def)
        have q1: "list_all accepts (sendq nt1)" using qr by (simp add: nt1_def)
        obtain rc c' nt' where res: "send_response_file os c1 nt1 = (rc, c', nt')"
          using prod_cases3 by blast
        from file_step_ok [OF s1 _ fl q1] res
        have "step_ok sock f hdr data (length hdr) nt1 (rc, c', nt')" by simp
        then obtain m' where all: "length hdr \<le> m' \<and> m' \<le> length hdr + length data \<and>
           wire sock (log nt') =
             wire sock (log nt1) @ take (m' - length hdr) (drop (length hdr) (hdr @ data)) \<and>
           list_all accepts (sendq nt') \<and>
           length (sendq nt1) \<le> length (sendq nt') + (m' - length hdr) \<and>
           (sendq nt1 \<noteq> [] \<longrightarrow> length hdr < m') \<and>
           (if m' = length hdr + length data then rc < 0
            else rc = 0 \<and> sending sock f hdr data m' c')"
          unfolding step_ok_def prod.case by blast
        then have m': "length hdr \<le> m'" "m' \<le> length hdr + length data"
          and w: "wire sock (log nt') =
                  wire sock (log nt1) @ take (m' - length hdr) (drop (length hdr) (hdr @ data))"
          and q': "list_all accepts (sendq nt')"
          and ln: "length (sendq nt1) \<le> length (sendq nt') + (m' - length hdr)"
          and fin: "if m' = length hdr + length data then rc < 0
            else rc = 0 \<and> sending sock f hdr data m' c'"
          by blast+
        have "take n (drop m (hdr @ data)) @ take (m' - length hdr) (drop (length hdr) (hdr @ data)) =
              take (m' - m) (drop m (hdr @ data))"
        proof -
          have "m' - m = n + (m' - length hdr)" using full m' by simp
          then show ?thesis
            using full by (simp only: take_add drop_drop) (simp add: add.commute)
        qed
        then have w': "wire sock (log nt') = wire sock (log nt) @ take (m' - m) (drop m (hdr @ data))"
          using w w1 by simp
        show ?thesis
          unfolding hd res step_ok_def
          using w' q' ln fin m' n full Cons
          by (auto simp: nt1_def intro!: exI [of _ m'])
      qed
    qed
  qed
qed

lemma sending_state:
  "sending sock f hdr data m c \<Longrightarrow>
   (state c = STATE_SENDING_HEADER \<or> state c = STATE_SENDING_FILE) \<and>
   m < length hdr + length data \<and> fd c = sock"
  by (auto simp: sending_def split: if_splits)

lemma write_event_step_ok:
  assumes s: "sending sock f hdr data m c"
    and fl: "\<forall>count off. 0 \<le> off \<longrightarrow> os_pread os f count off = Some (take count (drop (nat off) data))"
    and q: "list_all accepts (sendq nt)"
  shows "\<exists>rc c' nt' m'.
    handle_write_event os server c nt = (rc, server, c', nt') \<and>
    m \<le> m' \<and> m' \<le> length hdr + length data \<and>
    wire sock (log nt') = wire sock (log nt) @ take (m' - m) (drop m (hdr @ data)) \<and>
    list_all accepts (sendq nt') \<and>
    length (sendq nt) \<le> length (sendq nt') + (m' - m) \<and>
    (sendq nt \<noteq> [] \<longrightarrow> m < m') \<and>
    (if m' = length hdr + length data then rc < 0
     else rc = 0 \<and> sending sock f hdr data m' c')"
proof -
  obtain rc c' nt' where res: "send_response os c nt = (rc, c', nt')"
    using prod_cases3 by blast
  have h: "handle_write_event os server c nt = (rc, server, c', nt')"
    using sending_state [OF s] res by (auto simp: handle_write_event_def)
  from send_response_step_ok [OF s fl q] res
  have "step_ok sock f hdr data m nt (rc, c', nt')" by simp
  then obtain m' where "m \<le> m' \<and> m' \<le> length hdr + length data \<and>
           wire sock (log nt') = wire sock (log nt) @ take (m' - m) (drop m (hdr @ data)) \<and>
           list_all accepts (sendq nt') \<and>
           length (sendq nt) \<le> length (sendq nt') + (m' - m) \<and>
           (sendq nt \<noteq> [] \<longrightarrow> m < m') \<and>
           (if m' = length hdr + length data then rc < 0
            else rc = 0 \<and> sending sock f hdr data m' c')"
    unfolding step_ok_def prod.case by blast
  with h show ?thesis
    by - (rule exI [of _ rc], rule exI [of _ c'], rule exI [of _ nt'], rule exI [of _ m'],
          blast)
qed

lemma write_events_complete:
  assumes fl: "\<forall>count off. 0 \<le> off \<longrightarrow> os_pread os f count off = Some (take count (drop (nat off) data))"
  shows "sending sock f hdr data m c \<Longrightarrow> list_all accepts (sendq nt) \<Longrightarrow>
     length hdr + length data - m \<le> length (sendq nt) \<Longrightarrow>
     length hdr + length data - m \<le> k \<Longrightarrow>
     \<exists>c' nt'. write_events k os server c nt = (True, c', nt') \<and>
        wire sock (log nt') = wire sock (log nt) @ drop m (hdr @ data)"
proof (induction k arbitrary: m c nt)
  case 0
  then show ?case using sending_state [of sock f hdr data m c] by simp
next
  case (Suc k)
  have lt: "m < length hdr + length data" using sending_state [OF Suc.prems(1)] by simp
  then have ne: "sendq nt \<noteq> []" using Suc.prems(3) by auto
  from write_event_step_ok [OF Suc.prems(1) fl Suc.prems(2), of server]
  obtain rc c' nt' m' where all: "handle_write_event os server c nt = (rc, server, c', nt') \<and>
    m \<le> m' \<and> m' \<le> length hdr + length data \<and>
    wire sock (log nt') = wire sock (log nt) @ take (m' - m) (drop m (hdr @ data)) \<and>
    list_all accepts (sendq nt') \<and>
    length (sendq nt) \<le> length (sendq nt') + (m' - m) \<and>
    (sendq nt \<noteq> [] \<longrightarrow> m < m') \<and>
    (if m' = length hdr + length data then rc < 0
     else rc = 0 \<and> sending sock f hdr data m' c')"
    by (elim exE)
  then have h: "handle_write_event os server c nt = (rc, server, c', nt')"
    and m': "m \<le> m'" "m' \<le> length hdr + length data"
    and w: "wire sock (log nt') = wire sock (log nt) @ take (m' - m) (drop m (hdr @ data))"
    and q': "list_all accepts (sendq nt')"
    and ln: "length (sendq nt) \<le> length (sendq nt') + (m' - m)"
    and pr: "sendq nt \<noteq> [] \<longrightarrow> m < m'"
    and fin: "if m' = length hdr + length data then rc < 0
     else rc = 0 \<and> sending sock f hdr data m' c'"
    by blast+
  show ?case
  proof (cases "m' = length hdr + length data")
    case True
    then have "rc < 0" using fin by simp
    then have "write_events (Suc k) os server c nt = (True, c', nt')" using h by simp
    moreover have "take (m' - m) (drop m (hdr @ data)) = drop m (hdr @ data)"
      using True by simp
    ultimately show ?thesis using w by simp
  next
    case False
    then have rc: "rc = 0" and s': "sending sock f hdr data m' c'" using fin by simp_all
    have a: "length hdr + length data - m' \<le> length (sendq nt')"
      using ln Suc.prems(3) m' by linarith
    have b: "length hdr + length data - m' \<le> k"
      using pr ne Suc.prems(4) by linarith
    from Suc.IH [OF s' q' a b]
    obtain c'' nt'' where r: "write_events k os server c' nt' = (True, c'', nt'')"
      and w2: "wire sock (log nt'') = wire sock (log nt') @ drop m' (hdr @ data)"
      by blast
    have "take (m' - m) (drop m (hdr @ data)) @ drop m' (hdr @ data) = drop m (hdr @ data)"
    proof -
      have "drop m' (hdr @ data) = drop (m' - m) (drop m (hdr @ data))"
        using m'(1) by (simp only: drop_drop) simp
      then show ?thesis by (simp only: append_take_drop_id)
    qed
    then have "wire sock (log nt'') = wire sock (log nt) @ drop m (hdr @ data)"
      using w w2 by simp
    moreover have "write_events (Suc k) os server c nt = (True, c'', nt'')"
      using h rc r by simp
    ultimately show ?thesis by blast
  qed
qed

lemma write_events_prefix:
  assumes fl: "\<forall>count off. 0 \<le> off \<longrightarrow> os_pread os f count off = Some (take count (drop (nat off) data))"
  shows "sending sock f hdr data m c \<Longrightarrow> list_all accepts (sendq nt) \<Longrightarrow>
     \<exists>j. wire sock (log (snd (snd (write_events k os server c nt)))) =
          wire sock (log nt) @ take j (drop m (hdr @ data))"
proof (induction k arbitrary: m c nt)
  case 0
  have "wire sock (log (snd (snd (write_events 0 os server c nt)))) =
        wire sock (log nt) @ take 0 (drop m (hdr @ data))" by simp
  then show ?case by (rule exI)
next
  case (Suc k)
  from write_event_step_ok [OF Suc.prems(1) fl Suc.prems(2), of server]
  obtain rc c' nt' m' where all: "handle_write_event os server c nt = (rc, server, c', nt') \<and>
    m \<le> m' \<and> m' \<le> length hdr + length data \<and>
    wire sock (log nt') = wire sock (log nt) @ take (m' - m) (drop m (hdr @ data)) \<and>
    list_all accepts (sendq nt') \<and>
    length (sendq nt) \<le> length (sendq nt') + (m' - m) \<and>
    (sendq nt \<noteq> [] \<longrightarrow> m < m') \<and>
    (if m' = length hdr + length data then rc < 0
     else rc = 0 \<and> sending sock f hdr data m' c')"
    by (elim exE)
  then have h: "handle_write_event os server c nt = (rc, server, c', nt')"
    and m': "m \<le> m'" "m' \<le> length hdr + length data"
    and w: "wire sock (log nt') = wire sock (log nt) @ take (m' - m) (drop m (hdr @ data))"
    and q': "list_all accepts (sendq nt')"
    and fin: "if m' = length hdr + length data then rc < 0
     else rc = 0 \<and> sending sock f hdr data m' c'"
    by blast+
  show ?case
  proof (cases "m' = length hdr + length data")
    case True
    then have "rc < 0" using fin by simp
    then have e: "write_events (Suc k) os server c nt = (True, c', nt')" using h by simp
    have "wire sock (log (snd (snd (True, c', nt')))) =
          wire sock (log nt) @ take (m' - m) (drop m (hdr @ data))"
      unfolding snd_conv by (rule w)
    then show ?thesis unfolding e by (rule exI)
  next
    case False
    then have rc: "rc = 0" and s': "sending sock f hdr data m' c'" using fin by simp_all
    from Suc.IH [OF s' q']
    obtain j where w2: "wire sock (log (snd (snd (write_events k os server c' nt')))) =
          wire sock (log nt') @ take j (drop m' (hdr @ data))" by blast
    have t: "take (m' - m) (drop m (hdr @ data)) @ take j (drop m' (hdr @ data)) =
          take (m' - m + j) (drop m (hdr @ data))"
      using m'(1) by (simp only: take_add drop_drop) simp
    have e: "write_events (Suc k) os server c nt = write_events k os server c' nt'"
      using h rc by simp
    have "wire sock (log (snd (snd (write_events k os server c' nt')))) =
          wire sock (log nt) @ take (m' - m + j) (drop m (hdr @ data))"
      unfolding w2 w t [symmetric] by (simp only: append_assoc)
    then show ?thesis unfolding e by (rule exI)
  qed
qed

lemma close_client_closed:
  "a_fd (fst (close_client c nt)) < 0 \<and>
   wire sock (log (snd (close_client c nt))) = wire sock (log nt) \<and>
   sendq (snd (close_client c nt)) = sendq nt"
  by (simp add: close_client_def reset_client_def sys_close_def wire_append Let_def)

lemma aio_header_step:
  assumes s: "aio_sending sock f hdr data m c" and m: "m < length hdr"
    and q: "list_all accepts (sendq nt)"
  shows "aio_step_ok sock f hdr data m nt (handle_client_write os server c nt)"
proof -
  have st: "a_response_buffer c = Some hdr" "a_response_size c = length hdr"
    "a_response_sent c = m" "a_file_offset c = 0" "a_fd c = sock" "0 \<le> sock"
    "a_file_fd c = f" "0 \<le> f" "a_file_size c = int (length data)"
    using s m by (simp_all add: aio_sending_def)
  define offered where "offered = take (length hdr - m) (drop m hdr)"
  have off: "offered = drop m hdr" by (simp add: offered_def)
  show ?thesis
  proof (cases "sendq nt")
    case Nil
    have "handle_client_write os server c nt =
          (server, c, nt\<lparr>log := log nt @ [IoSend sock offered (-1) True]\<rparr>)"
      using st sys_send_empty [OF Nil, of sock offered]
      by (simp add: handle_client_write_def offered_def Let_def)
    then show ?thesis
      unfolding aio_step_ok_def using Nil s m st(5,6)
      by (auto simp: wire_snoc_fail intro!: exI [of _ m])
  next
    case (Cons r rest)
    then obtain k where r: "r = Sent k" "0 < k" and qr: "list_all accepts rest"
      using q by (cases r) auto
    define n where "n = min k (length hdr - m)"
    have n: "0 < n" "m + n \<le> length hdr" using r(2) m by (simp_all add: n_def)
    define nt1 where "nt1 = nt\<lparr>sendq := rest, log := log nt @ [IoSend sock offered (int n) False]\<rparr>"
    have sv: "sys_send nt sock offered = ((int n, False), nt1)"
      using sys_send_Sent [of nt k rest sock offered] Cons r
      by (simp add: n_def nt1_def off)
    have w1: "wire sock (log nt1) = wire sock (log nt) @ take n (drop m (hdr @ data))"
      using n by (simp add: nt1_def wire_snoc_send off)
    define s1 where "s1 = server\<lparr>a_total_bytes_sent := a_total_bytes_sent server + word_of_int (int n)\<rparr>"
    show ?thesis
    proof (cases "m + n < length hdr")
      case part: True
      have "handle_client_write os server c nt = (s1, c\<lparr>a_response_sent := m + n\<rparr>, nt1)"
        using st sv n part
        by (simp add: handle_client_write_def offered_def [symmetric] Let_def s1_def)
      moreover have "aio_sending sock f hdr data (m + n) (c\<lparr>a_response_sent := m + n\<rparr>)"
        using s m part by (simp add: aio_sending_def)
      ultimately show ?thesis
        unfolding aio_step_ok_def using w1 qr Cons n part st(5,6)
        by (auto simp: nt1_def intro!: exI [of _ "m + n"])
    next
      case False
      then have full: "m + n = length hdr" using n by simp
      define c1 where "c1 = c\<lparr>a_response_sent := length hdr, a_response_buffer := None,
                               a_state := AIO_STATE_SENDING_RESPONSE\<rparr>"
      have "handle_client_write os server c nt = (s1, c1, nt1)"
        using st sv n full
        by (simp add: handle_client_write_def offered_def [symmetric] Let_def s1_def c1_def)
      moreover have "aio_sending sock f hdr data (length hdr) c1"
        using st by (simp add: aio_sending_def c1_def)
      ultimately show ?thesis
        unfolding aio_step_ok_def using w1 qr Cons n full st(5,6) m
        by (auto simp: nt1_def c1_def intro!: exI [of _ "length hdr"])
    qed
  qed
qed


lemma aio_file_step:
  assumes s: "aio_sending sock f hdr data m c" and m: "length hdr \<le> m"
    and fl: "\<forall>count off. 0 \<le> off \<longrightarrow> os_pread os f count off = Some (take count (drop (nat off) data))"
    and q: "list_all accepts (sendq nt)"
  shows "aio_step_ok sock f hdr data m nt (handle_client_write os server c nt)"
proof -
  define off where "off = m - length hdr"
  have st: "a_response_buffer c = None" "a_fd c = sock" "0 \<le> sock" "a_file_fd c = f" "0 \<le> f"
    "a_file_size c = int (length data)" "a_file_offset c = int off" "off \<le> length data"
    "off = length data \<longrightarrow> data = []"
    using s m by (auto simp: aio_sending_def off_def)
  define tr where "tr = min (length data - off) aio_kResponseBufferSize"
  have to_read: "(if a_file_offset c + int aio_kResponseBufferSize > a_file_size c
               then a_file_size c - a_file_offset c else int aio_kResponseBufferSize) = int tr"
    using st by (auto simp: tr_def min_def)
  obtain c0 n0 where cl0: "close_client c nt = (c0, n0)" by fastforce
  show ?thesis
  proof (cases "data = []")
    case True
    then have z: "tr = 0" "m = length hdr + length data" using st(8) m by (simp_all add: tr_def off_def)
    have "handle_client_write os server c nt =
          (server\<lparr>num_clients := num_clients server - 1\<rparr>, c0, n0)"
      using st to_read z cl0 by (simp add: handle_client_write_def Let_def)
    then show ?thesis
      unfolding aio_step_ok_def using close_client_closed [of c nt sock] cl0 q z
      by (auto intro!: exI [of _ m])
  next
    case ne: False
    then have lt: "off < length data" using st(8,9) by auto
    then have tr_pos: "0 < tr" by (simp add: tr_def aio_kResponseBufferSize_def)
    define chunk where "chunk = take tr (drop off data)"
    have pr: "os_pread os (a_file_fd c) tr (a_file_offset c) = Some chunk"
      using fl st by (simp add: chunk_def)
    have cl: "length chunk = tr" using lt by (simp add: chunk_def tr_def)
    have cne: "chunk \<noteq> []" using cl tr_pos by auto
    have tk: "take tr chunk = chunk" using cl by simp
    have mlt: "m < length hdr + length data" using lt m by (simp add: off_def)
    show ?thesis
    proof (cases "sendq nt")
      case Nil
      have "handle_client_write os server c nt =
            (server, c, nt\<lparr>log := log nt @ [IoSend sock chunk (-1) True]\<rparr>)"
        using st to_read pr cne tk tr_pos sys_send_empty [OF Nil, of sock chunk]
        by (simp add: handle_client_write_def Let_def)
      then show ?thesis
        unfolding aio_step_ok_def using Nil s mlt st(2,3)
        by (auto simp: wire_snoc_fail intro!: exI [of _ m])
    next
      case (Cons r rest)
      then obtain k where r: "r = Sent k" "0 < k" and qr: "list_all accepts rest"
        using q by (cases r) auto
      define n where "n = min k tr"
      have n: "0 < n" "n \<le> tr" using r(2) tr_pos by (simp_all add: n_def)
      define nt1 where "nt1 = nt\<lparr>sendq := rest, log := log nt @ [IoSend sock chunk (int n) False]\<rparr>"
      have sv: "sys_send nt sock chunk = ((int n, False), nt1)"
        using sys_send_Sent [of nt k rest sock chunk] Cons r by (simp add: n_def cl nt1_def)
      have tkn: "take n chunk = take n (drop m (hdr @ data))"
        using n m by (simp add: chunk_def off_def min_absorb2)
      have w1: "wire sock (log nt1) = wire sock (log nt) @ take n (drop m (hdr @ data))"
        using n by (simp add: nt1_def wire_snoc_send tkn)
      define s1 where "s1 = server\<lparr>a_total_bytes_sent := a_total_bytes_sent server + word_of_int (int n)\<rparr>"
      define c1 where "c1 = c\<lparr>a_file_offset := int off + int n\<rparr>"
      have le: "m + n \<le> length hdr + length data"
        using n m lt by (auto simp: tr_def off_def)
      show ?thesis
      proof (cases "m + n = length hdr + length data")
        case True
        obtain c2 n2 where cl2: "close_client c1 nt1 = (c2, n2)" by fastforce
        have "handle_client_write os server c nt =
              (s1\<lparr>num_clients := num_clients s1 - 1\<rparr>, c2, n2)"
          using st to_read pr cne tk tr_pos sv n True m cl2
          by (simp add: handle_client_write_def Let_def s1_def c1_def off_def)
        then show ?thesis
          unfolding aio_step_ok_def
          using close_client_closed [of c1 nt1 sock] cl2 w1 qr Cons n True
          by (auto simp: nt1_def intro!: exI [of _ "m + n"])
      next
        case False
        have "handle_client_write os server c nt = (s1, c1, nt1)"
          using st to_read pr cne tk tr_pos sv n False m le
          by (simp add: handle_client_write_def Let_def s1_def c1_def off_def)
        moreover have "aio_sending sock f hdr data (m + n) c1"
          using s m n le False by (auto simp: aio_sending_def c1_def off_def)
        ultimately show ?thesis
          unfolding aio_step_ok_def using w1 qr Cons n le mlt st(2,3)
          by (auto simp: nt1_def c1_def intro!: exI [of _ "m + n"])
      qed
    qed
  qed
qed


lemma aio_closed_stops: "a_fd c < 0 \<Longrightarrow> aio_write_events k os s c nt = (s, c, nt)"
  by (cases k) simp_all

lemma aio_write_step_ok:
  assumes s: "aio_sending sock f hdr data m c"
    and fl: "\<forall>count off. 0 \<le> off \<longrightarrow> os_pread os f count off = Some (take count (drop (nat off) data))"
    and q: "list_all accepts (sendq nt)"
  shows "\<exists>s' c' nt' m'.
    handle_client_write os server c nt = (s', c', nt') \<and>
    m \<le> m' \<and> m' \<le> length hdr + length data \<and>
    wire sock (log nt') = wire sock (log nt) @ take (m' - m) (drop m (hdr @ data)) \<and>
    list_all accepts (sendq nt') \<and>
    length (sendq nt) \<le> length (sendq nt') + (m' - m) \<and>
    (if a_fd c' < 0 then m' = length hdr + length data
     else aio_sending sock f hdr data m' c' \<and> m < length hdr + length data \<and>
          (sendq nt \<noteq> [] \<longrightarrow> m < m'))"
proof -
  obtain s' c' nt' where res: "handle_client_write os server c nt = (s', c', nt')"
    using prod_cases3 by blast
  have "aio_step_ok sock f hdr data m nt (handle_client_write os server c nt)"
    using aio_header_step [OF s _ q] aio_file_step [OF s _ fl q]
    by (cases "m < length hdr") simp_all
  then obtain m' where "m \<le> m' \<and> m' \<le> length hdr + length data \<and>
    wire sock (log nt') = wire sock (log nt) @ take (m' - m) (drop m (hdr @ data)) \<and>
    list_all accepts (sendq nt') \<and>
    length (sendq nt) \<le> length (sendq nt') + (m' - m) \<and>
    (if a_fd c' < 0 then m' = length hdr + length data
     else aio_sending sock f hdr data m' c' \<and> m < length hdr + length data \<and>
          (sendq nt \<noteq> [] \<longrightarrow> m < m'))"
    unfolding aio_step_ok_def res prod.case by blast
  with res show ?thesis
    by - (rule exI [of _ s'], rule exI [of _ c'], rule exI [of _ nt'], rule exI [of _ m'],
          blast)
qed

lemma aio_write_events_complete:
  assumes fl: "\<forall>count off. 0 \<le> off \<longrightarrow> os_pread os f count off = Some (take count (drop (nat off) data))"
  shows "aio_sending sock f hdr data m c \<Longrightarrow> list_all accepts (sendq nt) \<Longrightarrow>
     length hdr + length data - m \<le> length (sendq nt) \<Longrightarrow>
     length hdr + length data - m < k \<Longrightarrow>
     \<exists>s' c' nt'. aio_write_events k os server c nt = (s', c', nt') \<and> a_fd c' < 0 \<and>
        wire sock (log nt') = wire sock (log nt) @ drop m (hdr @ data)"
proof (induction k arbitrary: m c nt server)
  case 0
  then show ?case by simp
next
  case (Suc k)
  have open_fd: "\<not> a_fd c < 0" using Suc.prems(1) by (simp add: aio_sending_def)
  from aio_write_step_ok [OF Suc.prems(1) fl Suc.prems(2), of server]
  obtain s1 c1 nt1 m' where all: "handle_client_write os server c nt = (s1, c1, nt1) \<and>
    m \<le> m' \<and> m' \<le> length hdr + length data \<and>
    wire sock (log nt1) = wire sock (log nt) @ take (m' - m) (drop m (hdr @ data)) \<and>
    list_all accepts (sendq nt1) \<and>
    length (sendq nt) \<le> length (sendq nt1) + (m' - m) \<and>
    (if a_fd c1 < 0 then m' = length hdr + length data
     else aio_sending sock f hdr data m' c1 \<and> m < length hdr + length data \<and>
          (sendq nt \<noteq> [] \<longrightarrow> m < m'))"
    by (elim exE)
  then have h: "handle_client_write os server c nt = (s1, c1, nt1)"
    and m': "m \<le> m'" "m' \<le> length hdr + length data"
    and w: "wire sock (log nt1) = wire sock (log nt) @ take (m' - m) (drop m (hdr @ data))"
    and q': "list_all accepts (sendq nt1)"
    and ln: "length (sendq nt) \<le> length (sendq nt1) + (m' - m)"
    and fin: "if a_fd c1 < 0 then m' = length hdr + length data
     else aio_sending sock f hdr data m' c1 \<and> m < length hdr + length data \<and>
          (sendq nt \<noteq> [] \<longrightarrow> m < m')"
    by blast+
  have e: "aio_write_events (Suc k) os server c nt = aio_write_events k os s1 c1 nt1"
    using open_fd h by simp
  show ?case
  proof (cases "a_fd c1 < 0")
    case True
    then have "m' = length hdr + length data" using fin by simp
    then have "take (m' - m) (drop m (hdr @ data)) = drop m (hdr @ data)" by simp
    then show ?thesis
      unfolding e aio_closed_stops [OF True] using True w by simp
  next
    case False
    then have s': "aio_sending sock f hdr data m' c1" and lt: "m < length hdr + length data"
      and pr: "sendq nt \<noteq> [] \<longrightarrow> m < m'" using fin by simp_all
    have ne: "sendq nt \<noteq> []" using lt Suc.prems(3) by auto
    have a: "length hdr + length data - m' \<le> length (sendq nt1)"
      using ln Suc.prems(3) m' by linarith
    have b: "length hdr + length data - m' < k"
      using pr ne Suc.prems(4) lt m' by linarith
    from Suc.IH [OF s' q' a b, of s1]
    obtain s'' c'' nt'' where r: "aio_write_events k os s1 c1 nt1 = (s'', c'', nt'')"
      and cl: "a_fd c'' < 0"
      and w2: "wire sock (log nt'') = wire sock (log nt1) @ drop m' (hdr @ data)"
      by blast
    have "take (m' - m) (drop m (hdr @ data)) @ drop m' (hdr @ data) = drop m (hdr @ data)"
    proof -
      have "drop m' (hdr @ data) = drop (m' - m) (drop m (hdr @ data))"
        using m'(1) by (simp only: drop_drop) simp
      then show ?thesis by (simp only: append_take_drop_id)
    qed
    then have "wire sock (log nt'') = wire sock (log nt) @ drop m (hdr @ data)"
      using w w2 by simp
    then show ?thesis unfolding e using r cl by blast
  qed
qed

lemma aio_write_events_prefix:
  assumes fl: "\<forall>count off. 0 \<le> off \<longrightarrow> os_pread os f count off = Some (take count (drop (nat off) data))"
  shows "aio_sending sock f hdr data m c \<Longrightarrow> list_all accepts (sendq nt) \<Longrightarrow>
     \<exists>j. wire sock (log (snd (snd (aio_write_events k os server c nt)))) =
          wire sock (log nt) @ take j (drop m (hdr @ data))"
proof (induction k arbitrary: m c nt server)
  case 0
  have "wire sock (log (snd (snd (aio_write_events 0 os server c nt)))) =
        wire sock (log nt) @ take 0 (drop m (hdr @ data))" by simp
  then show ?case by (rule exI)
next
  case (Suc k)
  have open_fd: "\<not> a_fd c < 0" using Suc.prems(1) by (simp add: aio_sending_def)
  from aio_write_step_ok [OF Suc.prems(1) fl Suc.prems(2), of server]
  obtain s1 c1 nt1 m' where all: "handle_client_write os server c nt = (s1, c1, nt1) \<and>
    m \<le> m' \<and> m' \<le> length hdr + length data \<and>
    wire sock (log nt1) = wire sock (log nt) @ take (m' - m) (drop m (hdr @ data)) \<and>
    list_all accepts (sendq nt1) \<and>
    length (sendq nt) \<le> length (sendq nt1) + (m' - m) \<and>
    (if a_fd c1 < 0 then m' = length hdr + length data
     else aio_sending sock f hdr data m' c1 \<and> m < length hdr + length data \<and>
          (sendq nt \<noteq> [] \<longrightarrow> m < m'))"
    by (elim exE)
  then have h: "handle_client_write os server c nt = (s1, c1, nt1)"
    and m': "m \<le> m'" "m' \<le> length hdr + length data"
    and w: "wire sock (log nt1) = wire sock (log nt) @ take (m' - m) (drop m (hdr @ data))"
    and q': "list_all accepts (sendq nt1)"
    and fin: "if a_fd c1 < 0 then m' = length hdr + length data
     else aio_sending sock f hdr data m' c1 \<and> m < length hdr + length data \<and>
          (sendq nt \<noteq> [] \<longrightarrow> m < m')"
    by blast+
  have e: "aio_write_events (Suc k) os server c nt = aio_write_events k os s1 c1 nt1"
    using open_fd h by simp
  show ?case
  proof (cases "a_fd c1 < 0")
    case True
    have "wire sock (log (snd (snd (s1, c1, nt1)))) =
          wire sock (log nt) @ take (m' - m) (drop m (hdr @ data))"
      unfolding snd_conv by (rule w)
    then show ?thesis unfolding e aio_closed_stops [OF True] by (rule exI)
  next
    case False
    then have s': "aio_sending sock f hdr data m' c1" using fin by simp
    from Suc.IH [OF s' q', of s1]
    obtain j where w2: "wire sock (log (snd (snd (aio_write_events k os s1 c1 nt1)))) =
          wire sock (log nt1) @ take j (drop m' (hdr @ data))" by blast
    have t: "take (m' - m) (drop m (hdr @ data)) @ take j (drop m' (hdr @ data)) =
          take (m' - m + j) (drop m (hdr @ data))"
      using m'(1) by (simp only: take_add drop_drop) simp
    have "wire sock (log (snd (snd (aio_write_events k os s1 c1 nt1)))) =
          wire sock (log nt) @ take (m' - m + j) (drop m (hdr @ data))"
      unfolding w2 w t [symmetric] by (simp only: append_assoc)
    then show ?thesis unfolding e by (rule exI)
  qed
qed

lemma offers_snoc:
  "offers_within cap (lg @ [e]) =
     (offers_within cap lg \<and> (case e of IoSend d bytes n ea \<Rightarrow> length bytes \<le> cap | _ \<Rightarrow> True))"
  by (simp add: offers_within_def)

lemma sys_send_offers:
  "offers_within cap (log nt) \<Longrightarrow> length bytes \<le> cap \<Longrightarrow>
   offers_within cap (log (snd (sys_send nt sock bytes)))"
  by (auto simp: sys_send_def offers_snoc Let_def split: list.splits send_result.splits)

lemma send_response_offers:
  assumes "offers_within cap (log nt)" "response_size c \<le> cap" "kResponseBufferSize \<le> cap"
    and "send_response os c nt = (rc, c', nt')"
  shows "offers_within cap (log nt') \<and> response_size c' = response_size c"
proof -
  obtain r1 c1 n1 where h: "send_response_header c nt = (r1, c1, n1)"
    using prod_cases3 by blast
  have h1: "offers_within cap (log n1) \<and> response_size c1 = response_size c"
  proof (cases "state c = STATE_SENDING_HEADER")
    case False
    then show ?thesis using h assms(1) by (simp add: send_response_header_def)
  next
    case True
    define offered where "offered = take (response_size c - response_sent c)
                   (drop (response_sent c) (buf_bytes (response_buffer c)))"
    have "length offered \<le> cap" using assms(2) by (simp add: offered_def)
    from sys_send_offers [OF assms(1) this, of "fd c"]
    have "\<And>r n. sys_send nt (fd c) offered = (r, n) \<Longrightarrow> offers_within cap (log n)"
      by (metis snd_conv)
    then show ?thesis using h True
      by (auto simp: send_response_header_def offered_def Let_def split: prod.splits if_splits)
  qed
  show ?thesis
  proof (cases r1)
    case (Some rc1)
    then show ?thesis using assms(4) h h1 by (simp add: send_response_def)
  next
    case None
    then have f: "send_response_file os c1 n1 = (rc, c', nt')"
      using assms(4) h by (simp add: send_response_def)
    define tr where "tr = nat (if file_offset c1 + int kResponseBufferSize > file_size c1
               then file_size c1 - file_offset c1 else int kResponseBufferSize)"
    have trb: "tr \<le> cap" using assms(3) by (auto simp: tr_def)
    have "\<And>bytes. offers_within cap (log (snd (sys_send n1 (fd c1) (take tr bytes))))"
      using sys_send_offers [OF conjunct1 [OF h1]] trb by simp
    then have "\<And>bytes r n. sys_send n1 (fd c1) (take tr bytes) = (r, n) \<Longrightarrow>
                 offers_within cap (log n)"
      by (metis snd_conv)
    then show ?thesis using f h1
      by (auto simp: send_response_file_def Let_def tr_def
          split: prod.splits if_splits option.splits)
  qed
qed

lemma write_events_offers:
  "offers_within cap (log nt) \<Longrightarrow> response_size c \<le> cap \<Longrightarrow> kResponseBufferSize \<le> cap \<Longrightarrow>
   offers_within cap (log (snd (snd (write_events k os server c nt))))"
proof (induction k arbitrary: c nt)
  case 0
  then show ?case by simp
next
  case (Suc k)
  obtain rc s1 c1 n1 where h: "handle_write_event os server c nt = (rc, s1, c1, n1)"
    using prod_cases4 by blast
  have "offers_within cap (log n1) \<and> response_size c1 = response_size c \<and> s1 = server"
  proof (cases "state c = STATE_SENDING_HEADER \<or> state c = STATE_SENDING_FILE")
    case True
    obtain r c2 n2 where sr: "send_response os c nt = (r, c2, n2)" using prod_cases3 by blast
    from send_response_offers [OF Suc.prems sr] h True sr show ?thesis
      by (auto simp: handle_write_event_def)
  next
    case False
    then show ?thesis using h Suc.prems(1) by (auto simp: handle_write_event_def)
  qed
  then show ?case using h Suc.IH [of n1 c1] Suc.prems by auto
qed


lemma close_client_offers:
  "offers_within cap (log nt) \<Longrightarrow> close_client c nt = (c', nt') \<Longrightarrow>
   offers_within cap (log nt') \<and> a_response_size c' \<le> cap"
  by (auto simp: close_client_def reset_client_def sys_close_def offers_within_def Let_def
      split: if_splits)

lemma handle_client_write_offers:
  assumes o: "offers_within cap (log nt)" and rs: "a_response_size c \<le> cap"
    and cap: "aio_kResponseBufferSize \<le> cap"
    and h: "handle_client_write os s c nt = (s', c', nt')"
  shows "offers_within cap (log nt') \<and> a_response_size c' \<le> cap"
proof (cases "a_response_buffer c")
  case (Some buffer)
  define offered where "offered = take (a_response_size c - a_response_sent c)
                     (drop (a_response_sent c) buffer)"
  have "length offered \<le> cap" using rs by (simp add: offered_def)
  from sys_send_offers [OF o this, of "a_fd c"]
  have sv: "\<And>r n. sys_send nt (a_fd c) offered = (r, n) \<Longrightarrow> offers_within cap (log n)"
    by (metis snd_conv)
  obtain r n1 where e: "sys_send nt (a_fd c) offered = (r, n1)" by fastforce
  note o1 = sv [OF e]
  have cc: "\<And>x c2 n2. close_client x n1 = (c2, n2) \<Longrightarrow>
              offers_within cap (log n2) \<and> a_response_size c2 \<le> cap"
    using close_client_offers [OF o1] by blast
  show ?thesis
    using h Some e o1 rs cc
    by (auto simp: handle_client_write_def offered_def [symmetric] Let_def
        split: prod.splits if_splits)
next
  case None
  show ?thesis
  proof (cases "a_file_fd c \<ge> 0")
    case False
    then show ?thesis using h None o rs by (simp add: handle_client_write_def)
  next
    case True
    define tr where "tr = nat (if a_file_offset c + int aio_kResponseBufferSize > a_file_size c
                   then a_file_size c - a_file_offset c
                   else int aio_kResponseBufferSize)"
    have trb: "tr \<le> cap" using cap by (auto simp: tr_def)
    have c0: "\<And>c2 n2. close_client c nt = (c2, n2) \<Longrightarrow>
              offers_within cap (log n2) \<and> a_response_size c2 \<le> cap"
      using close_client_offers [OF o] by blast
    have sv: "\<And>bytes r n. sys_send nt (a_fd c) (take tr bytes) = (r, n) \<Longrightarrow>
                 offers_within cap (log n)"
      using sys_send_offers [OF o, of "take tr _" "a_fd c"] trb
      by (metis length_take min.coboundedI2 snd_conv)
    have c1: "\<And>bytes r n x c2 n2. sys_send nt (a_fd c) (take tr bytes) = (r, n) \<Longrightarrow>
                 close_client x n = (c2, n2) \<Longrightarrow>
                 offers_within cap (log n2) \<and> a_response_size c2 \<le> cap"
      using sv close_client_offers by blast
    note h' = h [unfolded handle_client_write_def Let_def None option.case tr_def [symmetric]]
    show ?thesis
      using h' True rs c0 sv c1
      by (auto split: prod.splits if_splits option.splits)
  qed
qed

lemma aio_write_events_offers:
  "offers_within cap (log nt) \<Longrightarrow> a_response_size c \<le> cap \<Longrightarrow>
   aio_kResponseBufferSize \<le> cap \<Longrightarrow>
   offers_within cap (log (snd (snd (aio_write_events k os server c nt))))"
proof (induction k arbitrary: c nt server)
  case 0
  then show ?case by simp
next
  case (Suc k)
  show ?case
  proof (cases "a_fd c < 0")
    case True
    then show ?thesis using Suc.prems by simp
  next
    case False
    obtain s1 c1 n1 where h: "handle_client_write os server c nt = (s1, c1, n1)"
      using prod_cases3 by blast
    from handle_client_write_offers [OF Suc.prems h]
    show ?thesis using False h Suc.IH [of n1 c1 s1] Suc.prems(3) by simp
  qed
qed

lemma build_200_index_eq:
  "http_build_200 kHeaderBufferSize 37 ''text/html'' = Some ex_index_header"
  by (simp add: http_build_200_def kHeaderBufferSize_def dec_int_37 CRLF_def Let_def
      ex_index_header_def)

lemma ex_index_header_len: "length ex_index_header = 108"
  by (simp add: ex_index_header_def CRLF_def)

lemma ex_requested_eq:
  "ex_requested = ((fst ex_accepted)
     \<lparr>connections := (connections (fst ex_accepted))
        [0 := (connections (fst ex_accepted) ! 0)
           \<lparr>request_buffer := Some ex_request,
            request_size := 28, file_fd := 7, file_size := 37, file_offset := 0,
            response_buffer := Some ex_index_header,
            response_size := length ex_index_header, response_sent := 0,
            state := STATE_SENDING_HEADER\<rparr>],
      total_requests := 1\<rparr>,
     \<lparr>recvq = [], sendq = [], log = [IoRecv 5 28 False]\<rparr>)"
proof -
  have os: "os_stat ex_os ''/var/www/index.html'' = Some \<lparr>st_is_reg = True, st_size = 37\<rparr>"
    "os_open ex_os ''/var/www/index.html'' = 7"
    "os_fstat ex_os 7 = Some \<lparr>st_is_reg = True, st_size = 37\<rparr>"
    "os_malloc_ok ex_os" "os_kevent_ok ex_os"
    by (simp_all add: ex_os_def)
  show ?thesis
    by (simp add: ex_requested_def ex_accepted_eq client_event_def handle_read_event_def
        sys_recv_def ex_net_def zero_connection_def kRequestBufferSize_def buf_bytes_def
        ex_request_facts process_request_def safe_join_index os
        prepare_file_response_def guess_index build_200_index_eq Let_def)
qed

lemma aio_safe_join_index:
  "http_safe_join (os_realpath ex_os) (os_path_max ex_os) aio_kPathBufferSize ''/var/www''
     ''/index.html'' = Some ''/var/www/index.html''"
  by (simp add: http_safe_join_def ex_os_def aio_kPathBufferSize_def)

lemma ex_aio_requested_eq:
  "ex_aio_requested =
     ((fst ex_aio_full)\<lparr>a_total_requests := 1\<rparr>,
      (clients (fst ex_aio_full) ! 0)
         \<lparr>a_request_buffer := ex_request, a_request_size := 28,
          a_file_fd := 7, a_file_size := 37, a_file_offset := 0,
          a_response_buffer := Some ex_index_header,
          a_response_size := length ex_index_header, a_response_sent := 0,
          a_state := AIO_STATE_SENDING_RESPONSE\<rparr>,
      \<lparr>recvq = [], sendq = [], log = [IoRecv 5 28 False]\<rparr>)"
proof -
  have os: "os_stat ex_os ''/var/www/index.html'' = Some \<lparr>st_is_reg = True, st_size = 37\<rparr>"
    "os_open ex_os ''/var/www/index.html'' = 7"
    "os_fstat ex_os 7 = Some \<lparr>st_is_reg = True, st_size = 37\<rparr>"
    "os_malloc_ok ex_os"
    by (simp_all add: ex_os_def)
  have b: "http_build_200 aio_kHeaderBufferSize 37 ''text/html'' = Some ex_index_header"
    using build_200_index_eq by (simp add: kHeaderBufferSize_def aio_kHeaderBufferSize_def)
  show ?thesis
    by (simp add: ex_aio_requested_def ex_aio_full_eq handle_client_read_def
        sys_recv_def ex_net_def aio_kRequestBufferSize_def reset_client_def zero_client_def
        ex_request_facts process_http_request_def aio_safe_join_index os
        aio_prepare_file_response_def guess_index b Let_def)
qed

text \<open>
  Claim C7. A response of header \<open>hdr\<close> and file \<open>data\<close> is sent over write events
  whose every \<open>send\<close> takes at least one byte and possibly fewer than it is offered.
  Whatever the schedule and however many events have run, the bytes on the socket are
  the bytes it held before followed by an initial part of \<open>hdr @ data\<close>: the sender
  resumes where the socket stopped taking, and no byte is repeated or left out. No
  \<open>send\<close> is offered more than the response buffer holds, so at most one chunk of
  the file of that size is in memory. Once the schedule and the events are as many as
  the bytes, the connection is closed with exactly \<open>hdr @ data\<close> sent. This holds
  for the kqueue server and for the select server, which needs one event more when the
  file is empty.
\<close>

theorem short_writes:
  assumes fl: "\<forall>count off. 0 \<le> off \<longrightarrow>
                 os_pread os f count off = Some (take count (drop (nat off) data))"
    and sched: "list_all accepts (sendq nt)"
    and hdr: "hdr \<noteq> []"
  shows
    "(sending sock f hdr data 0 conn \<and> length hdr \<le> kResponseBufferSize \<and>
      offers_within kResponseBufferSize (log nt) \<longrightarrow>
        (\<exists>j. wire sock (log (snd (snd (write_events k os server conn nt)))) =
              wire sock (log nt) @ take j (hdr @ data)) \<and>
        offers_within kResponseBufferSize (log (snd (snd (write_events k os server conn nt)))) \<and>
        (length hdr + length data \<le> length (sendq nt) \<and> length hdr + length data \<le> k \<longrightarrow>
           fst (write_events k os server conn nt) \<and>
           wire sock (log (snd (snd (write_events k os server conn nt)))) =
             wire sock (log nt) @ hdr @ data)) \<and>
     (aio_sending sock f hdr data 0 client \<and> length hdr \<le> aio_kResponseBufferSize \<and>
      offers_within aio_kResponseBufferSize (log nt) \<longrightarrow>
        (\<exists>j. wire sock (log (snd (snd (aio_write_events k os aserver client nt)))) =
              wire sock (log nt) @ take j (hdr @ data)) \<and>
        offers_within aio_kResponseBufferSize
          (log (snd (snd (aio_write_events k os aserver client nt)))) \<and>
        (length hdr + length data \<le> length (sendq nt) \<and> length hdr + length data < k \<longrightarrow>
           a_fd (fst (snd (aio_write_events k os aserver client nt))) < 0 \<and>
           wire sock (log (snd (snd (aio_write_events k os aserver client nt)))) =
             wire sock (log nt) @ hdr @ data))"
proof (intro conjI impI)
  assume a: "sending sock f hdr data 0 conn \<and> length hdr \<le> kResponseBufferSize \<and>
      offers_within kResponseBufferSize (log nt)"
  then have s: "sending sock f hdr data 0 conn" by simp
  have rs: "response_size conn \<le> kResponseBufferSize"
    using a hdr by (simp add: sending_def)
  show "\<exists>j. wire sock (log (snd (snd (write_events k os server conn nt)))) =
              wire sock (log nt) @ take j (hdr @ data)"
    using write_events_prefix [OF fl s sched, of k server] by simp
  show "offers_within kResponseBufferSize (log (snd (snd (write_events k os server conn nt))))"
    using write_events_offers [of kResponseBufferSize nt conn k os server] a rs by simp
  assume b: "length hdr + length data \<le> length (sendq nt) \<and> length hdr + length data \<le> k"
  from write_events_complete [OF fl s sched, of k server] b
  obtain c' nt' where "write_events k os server conn nt = (True, c', nt')"
    "wire sock (log nt') = wire sock (log nt) @ drop 0 (hdr @ data)" by auto
  then show "fst (write_events k os server conn nt)"
    and "wire sock (log (snd (snd (write_events k os server conn nt)))) =
             wire sock (log nt) @ hdr @ data" by simp_all
next
  assume a: "aio_sending sock f hdr data 0 client \<and> length hdr \<le> aio_kResponseBufferSize \<and>
      offers_within aio_kResponseBufferSize (log nt)"
  then have s: "aio_sending sock f hdr data 0 client" by simp
  have rs: "a_response_size client \<le> aio_kResponseBufferSize"
    using a hdr by (simp add: aio_sending_def)
  show "\<exists>j. wire sock (log (snd (snd (aio_write_events k os aserver client nt)))) =
              wire sock (log nt) @ take j (hdr @ data)"
    using aio_write_events_prefix [OF fl s sched, of k aserver] by simp
  show "offers_within aio_kResponseBufferSize
          (log (snd (snd (aio_write_events k os aserver client nt))))"
    using aio_write_events_offers [of aio_kResponseBufferSize nt client k os aserver] a rs by simp
  assume b: "length hdr + length data \<le> length (sendq nt) \<and> length hdr + length data < k"
  from aio_write_events_complete [OF fl s sched, of k aserver] b
  obtain s' c' nt' where "aio_write_events k os aserver client nt = (s', c', nt')"
    "a_fd c' < 0" "wire sock (log nt') = wire sock (log nt) @ drop 0 (hdr @ data)" by auto
  then show "a_fd (fst (snd (aio_write_events k os aserver client nt))) < 0"
    and "wire sock (log (snd (snd (aio_write_events k os aserver client nt)))) =
             wire sock (log nt) @ hdr @ data" by simp_all
qed

text \<open>
  The response to the request for \<open>/index.html\<close>, 108 bytes of header and 37 of
  file, on a socket that takes one byte at each \<open>send\<close>.
\<close>

theorem short_writes_witness:
  "fst (write_events 146 ex_os (fst ex_requested) (connections (fst ex_requested) ! 0)
          ((snd ex_requested)\<lparr>sendq := replicate 145 (Sent 1)\<rparr>)) \<and>
   wire 5 (log (snd (snd (write_events 146 ex_os (fst ex_requested)
          (connections (fst ex_requested) ! 0)
          ((snd ex_requested)\<lparr>sendq := replicate 145 (Sent 1)\<rparr>))))) =
     ex_index_header @ ex_index \<and>
   a_fd (fst (snd (aio_write_events 146 ex_os (fst ex_aio_requested) (fst (snd ex_aio_requested))
          ((snd (snd ex_aio_requested))\<lparr>sendq := replicate 145 (Sent 1)\<rparr>)))) < 0 \<and>
   wire 5 (log (snd (snd (aio_write_events 146 ex_os (fst ex_aio_requested)
          (fst (snd ex_aio_requested))
          ((snd (snd ex_aio_requested))\<lparr>sendq := replicate 145 (Sent 1)\<rparr>))))) =
     ex_index_header @ ex_index"
proof -
  define nt where "nt = (snd ex_requested)\<lparr>sendq := replicate 145 (Sent 1)\<rparr>"
  define ant where "ant = (snd (snd ex_aio_requested))\<lparr>sendq := replicate 145 (Sent 1)\<rparr>"
  have nt_eq: "ant = nt"
    by (simp add: nt_def ant_def ex_requested_eq ex_aio_requested_eq)
  have fl: "\<forall>count off. 0 \<le> off \<longrightarrow>
              os_pread ex_os 7 count off = Some (take count (drop (nat off) ex_index))"
    by (simp add: ex_os_def)
  have sched: "list_all accepts (sendq nt)" "length (sendq nt) = 145"
    by (simp_all add: nt_def list_all_length)
  have lg: "log nt = [IoRecv 5 28 False]" "wire 5 (log nt) = []"
    by (simp_all add: nt_def ex_requested_eq)
  have hdr: "ex_index_header \<noteq> []" using ex_index_header_len by auto
  have s: "sending 5 7 ex_index_header ex_index 0 (connections (fst ex_requested) ! 0)"
    by (simp add: sending_def ex_requested_eq ex_accepted_eq ex_index_header_len ex_index_len)
  have a: "aio_sending 5 7 ex_index_header ex_index 0 (fst (snd ex_aio_requested))"
    by (simp add: aio_sending_def ex_aio_requested_eq ex_aio_full_eq ex_index_header_len
        ex_index_len)
  have ow: "offers_within kResponseBufferSize (log nt)"
    "offers_within aio_kResponseBufferSize (log nt)"
    by (simp_all add: lg offers_within_def)
  have sz: "length ex_index_header \<le> kResponseBufferSize"
    "length ex_index_header \<le> aio_kResponseBufferSize"
    by (simp_all add: ex_index_header_len kResponseBufferSize_def aio_kResponseBufferSize_def)
  note t = short_writes [OF fl sched(1) hdr, where sock = 5 and k = 146
      and conn = "connections (fst ex_requested) ! 0" and server = "fst ex_requested"
      and client = "fst (snd ex_aio_requested)" and aserver = "fst ex_aio_requested"]
  show ?thesis
    unfolding nt_def [symmetric] ant_def [symmetric] nt_eq
    using t s a ow sz sched(2) lg(2) by (simp add: ex_index_header_len ex_index_len)
qed

subsection \<open>A socket that fails\<close>

lemma close_not_failed: "is_close e \<Longrightarrow> \<not> failed e"
  by (cases e) simp_all

lemma closes_clean: "list_all is_close cl \<Longrightarrow> \<not> list_ex failed cl"
  by (induction cl) (auto simp: close_not_failed)

lemma torn_down_clean: "\<not> list_ex failed ext \<Longrightarrow> torn_down sock ext"
  by (induction ext) auto

lemma torn_down_append:
  "\<not> list_ex failed pre \<Longrightarrow> torn_down sock (pre @ es) = torn_down sock es"
  by (induction pre) auto

lemma trace_clean: "\<not> list_ex failed ext \<Longrightarrow> handler_trace rc ext"
  by (simp add: handler_trace_def)

lemma trace_single: "(failed e \<longrightarrow> rc < 0) \<Longrightarrow> handler_trace rc [e]"
  by (simp add: handler_trace_def)

lemma trace_prepend:
  assumes "\<not> list_ex failed pre" "handler_trace rc ext"
  shows "handler_trace rc (pre @ ext)"
proof (cases "list_ex failed ext")
  case False
  then show ?thesis using assms by (simp add: handler_trace_def)
next
  case True
  then have ne: "ext \<noteq> []" by auto
  show ?thesis using assms True ne
    by (simp add: handler_trace_def butlast_append)
qed

lemma trace_close:
  assumes t: "handler_trace rc ext" and cl: "list_all is_close cl"
    and neg: "rc < 0 \<longrightarrow> IoClose sock \<in> set cl"
  shows "torn_down sock (ext @ cl)"
proof (cases "list_ex failed ext")
  case False
  then have "\<not> list_ex failed (ext @ cl)" using closes_clean [OF cl] by simp
  then show ?thesis by (rule torn_down_clean)
next
  case True
  then have ne: "ext \<noteq> []" by auto
  from t True have r: "rc < 0" "failed (last ext)" "\<not> list_ex failed (butlast ext)"
    by (simp_all add: handler_trace_def)
  have e: "ext @ cl = butlast ext @ (last ext # cl)" using ne by simp
  have "torn_down sock (butlast ext @ (last ext # cl)) = torn_down sock (last ext # cl)"
    by (rule torn_down_append [OF r(3)])
  then have "torn_down sock (ext @ cl) = torn_down sock (last ext # cl)"
    by (simp only: e)
  then show ?thesis using r cl neg by simp
qed

lemma sys_recv_log:
  "sys_recv nt sock len = ((n, ea, got), nt') \<Longrightarrow> log nt' = log nt @ [IoRecv sock n ea]"
  by (auto simp: sys_recv_def Let_def split: list.splits recv_result.splits)

lemma sys_send_log:
  "sys_send nt sock bytes = ((n, ea), nt') \<Longrightarrow> log nt' = log nt @ [IoSend sock bytes n ea]"
  by (auto simp: sys_send_def Let_def split: list.splits send_result.splits)

lemma prepare_error_response_fd: "fd (snd (prepare_error_response os c code)) = fd c"
  by (cases "error_response_text code") (simp_all add: prepare_error_response_def Let_def)

lemma prepare_file_response_log:
  "\<exists>cl. log (snd (snd (prepare_file_response os c fp nt))) = log nt @ cl \<and>
        list_all is_close cl \<and> fd (fst (snd (prepare_file_response os c fp nt))) = fd c"
  by (auto simp: prepare_file_response_def sys_close_def Let_def split: option.splits)

lemma process_request_log:
  "\<exists>cl. log (snd (snd (process_request os s c nt))) = log nt @ cl \<and>
        list_all is_close cl \<and> fd (fst (snd (process_request os s c nt))) = fd c"
proof -
  obtain rc request where p:
    "http_parse_request (buf_bytes (request_buffer c)) (request_size c) = (rc, request)"
    by (metis prod.collapse)
  show ?thesis
  proof (cases "rc \<le> 0")
    case True
    then show ?thesis using p
      by (simp add: process_request_def prepare_error_response_fd)
  next
    case False
    show ?thesis
    proof (cases "http_safe_join (os_realpath os) (os_path_max os) kPathBufferSize
               (doc_root s) (path request)")
      case None
      then show ?thesis using p False
        by (simp add: process_request_def prepare_error_response_fd)
    next
      case (Some fp)
      obtain r c1 n1 where f: "prepare_file_response os c fp nt = (r, c1, n1)"
        using prod_cases3 by blast
      from prepare_file_response_log [of os c fp nt] f
      obtain cl where "log n1 = log nt @ cl" "list_all is_close cl" "fd c1 = fd c"
        by auto
      then show ?thesis using p False Some f
        by (auto simp: process_request_def prepare_error_response_fd Let_def
            split: option.splits)
    qed
  qed
qed

lemma handle_read_event_trace:
  assumes h: "handle_read_event os s c nt = (rc, s', c', nt')"
  shows "\<exists>ext. log nt' = log nt @ ext \<and> handler_trace rc ext \<and> fd c' = fd c"
proof (cases "state c = STATE_READING_REQUEST")
  case False
  then have "nt' = nt" "c' = c" using h by (simp_all add: handle_read_event_def)
  then show ?thesis by (simp add: handler_trace_def)
next
  case rd: True
  obtain n ea got n1 where rv:
    "sys_recv nt (fd c) (request_capacity c - request_size c - 1) = ((n, ea, got), n1)"
    by (metis prod.collapse)
  note lg = sys_recv_log [OF rv]
  show ?thesis
  proof (cases "n \<le> 0")
    case True
    then have "nt' = n1" "c' = c" "\<not> (n < 0 \<and> ea) \<longrightarrow> rc < 0"
      using h rd rv by (auto simp: handle_read_event_def split: if_splits)
    then show ?thesis using lg True by (simp add: handler_trace_def)
  next
    case False
    define c1 where "c1 = c\<lparr>request_buffer :=
                            Some (take (request_size c) (buf_bytes (request_buffer c)) @ got),
                          request_size := request_size c + nat n\<rparr>"
    have fd1: "fd c1 = fd c" by (simp add: c1_def)
    have clean: "\<not> list_ex failed [IoRecv (fd c) n ea]" using False by simp
    show ?thesis
    proof (cases "strstr (c_str (buf_bytes (request_buffer c1))) CRLFCRLF \<noteq> None")
      case True
      from process_request_log [of os s c1 n1]
      obtain cl where cl: "log (snd (snd (process_request os s c1 n1))) = log n1 @ cl"
        "list_all is_close cl" "fd (fst (snd (process_request os s c1 n1))) = fd c1"
        by blast
      have r: "nt' = snd (snd (process_request os s c1 n1))"
        "c' = fst (snd (process_request os s c1 n1))"
        using h rd rv False True
        by (simp_all add: handle_read_event_def Let_def c1_def [symmetric] split_beta)
      have "\<not> list_ex failed ([IoRecv (fd c) n ea] @ cl)"
        using clean closes_clean [OF cl(2)] by simp
      then have "handler_trace rc ([IoRecv (fd c) n ea] @ cl)" by (rule trace_clean)
      then show ?thesis using r cl lg fd1 by simp
    next
      case nf: False
      then have nf': "strstr (c_str (buf_bytes
          (Some (take (request_size c) (buf_bytes (request_buffer c)) @ got)))) CRLFCRLF = None"
        by (simp add: c1_def)
      have r: "nt' = n1" "fd c' = fd c"
        using h rd rv False nf'
        by (auto simp: handle_read_event_def Let_def prepare_error_response_fd
            split: if_splits)
      show ?thesis using r lg trace_clean [OF clean, of rc] by simp
    qed
  qed
qed

lemma send_response_header_trace:
  assumes h: "send_response_header c nt = (r, c', nt')"
  shows "\<exists>ext. log nt' = log nt @ ext \<and> fd c' = fd c \<and>
           (case r of Some rc \<Rightarrow> handler_trace rc ext | None \<Rightarrow> \<not> list_ex failed ext)"
proof (cases "state c = STATE_SENDING_HEADER")
  case False
  then show ?thesis using h by (auto simp: send_response_header_def)
next
  case True
  obtain n ea n1 where sv: "sys_send nt (fd c)
                (take (response_size c - response_sent c)
                   (drop (response_sent c) (buf_bytes (response_buffer c)))) = ((n, ea), n1)"
    by (metis prod.collapse)
  note lg = sys_send_log [OF sv]
  show ?thesis using h True sv lg
    by (auto simp: send_response_header_def Let_def handler_trace_def split: if_splits)
qed

lemma send_response_file_trace:
  assumes h: "send_response_file os c nt = (rc, c', nt')"
  shows "\<exists>ext. log nt' = log nt @ ext \<and> fd c' = fd c \<and> handler_trace rc ext"
proof (cases "state c = STATE_SENDING_FILE \<and> file_fd c \<ge> 0")
  case False
  then show ?thesis using h by (auto simp: send_response_file_def handler_trace_def)
next
  case True
  define to_read where "to_read = (if file_offset c + int kResponseBufferSize > file_size c
               then file_size c - file_offset c else int kResponseBufferSize)"
  show ?thesis
  proof (cases "os_pread os (file_fd c) (nat to_read) (file_offset c)")
    case None
    then show ?thesis using h True
      by (auto simp: send_response_file_def Let_def to_read_def handler_trace_def
          split: if_splits)
  next
    case (Some bytes)
    obtain n ea n1 where sv: "sys_send nt (fd c) (take (nat to_read) bytes) = ((n, ea), n1)"
      by (metis prod.collapse)
    note lg = sys_send_log [OF sv]
    have a: "(nt' = nt \<and> rc < 0 \<or> nt' = n1 \<and> (n \<le> 0 \<and> \<not> (n < 0 \<and> ea) \<longrightarrow> rc < 0)) \<and>
             fd c' = fd c"
      using h True Some sv
      by (auto simp: send_response_file_def Let_def to_read_def split: if_splits)
    then consider "nt' = nt" | "nt' = n1" "n \<le> 0 \<and> \<not> (n < 0 \<and> ea) \<longrightarrow> rc < 0" by blast
    then show ?thesis
    proof cases
      case 1
      then show ?thesis using a by (simp add: handler_trace_def)
    next
      case 2
      have "handler_trace rc [IoSend (fd c) (take (nat to_read) bytes) n ea]"
        using 2(2) by (simp add: handler_trace_def)
      then show ?thesis using 2(1) lg a by simp
    qed
  qed
qed

lemma send_response_trace:
  assumes h: "send_response os c nt = (rc, c', nt')"
  shows "\<exists>ext. log nt' = log nt @ ext \<and> fd c' = fd c \<and> handler_trace rc ext"
proof -
  obtain r1 c1 n1 where hh: "send_response_header c nt = (r1, c1, n1)"
    using prod_cases3 by blast
  from send_response_header_trace [OF hh]
  obtain e1 where e1: "log n1 = log nt @ e1" "fd c1 = fd c"
    "case r1 of Some rc \<Rightarrow> handler_trace rc e1 | None \<Rightarrow> \<not> list_ex failed e1"
    by blast
  show ?thesis
  proof (cases r1)
    case (Some r)
    then show ?thesis using h hh e1 by (auto simp: send_response_def)
  next
    case None
    then have f: "send_response_file os c1 n1 = (rc, c', nt')"
      using h hh by (simp add: send_response_def)
    from send_response_file_trace [OF f]
    obtain e2 where e2: "log nt' = log n1 @ e2" "fd c' = fd c1" "handler_trace rc e2"
      by blast
    have "handler_trace rc (e1 @ e2)" using trace_prepend e1(3) e2(3) None by simp
    then show ?thesis using e1 e2 by simp
  qed
qed

lemma handle_write_event_trace:
  assumes h: "handle_write_event os s c nt = (rc, s', c', nt')"
  shows "\<exists>ext. log nt' = log nt @ ext \<and> fd c' = fd c \<and> handler_trace rc ext"
proof (cases "state c = STATE_SENDING_HEADER \<or> state c = STATE_SENDING_FILE")
  case False
  then show ?thesis using h by (auto simp: handle_write_event_def handler_trace_def)
next
  case True
  obtain r c1 n1 where hh: "send_response os c nt = (r, c1, n1)"
    using prod_cases3 by blast
  have "c' = c1" "nt' = n1" "rc = r" using h True hh by (auto simp: handle_write_event_def)
  with send_response_trace [OF hh] show ?thesis by simp
qed

lemma close_connection_log:
  assumes "ci < length (connections s)" "0 \<le> fd (connections s ! ci)"
  shows "\<exists>cl. log (snd (close_connection s ci nt)) = log nt @ cl \<and> list_all is_close cl \<and>
           IoClose (fd (connections s ! ci)) \<in> set cl \<and>
           fd (connections (fst (close_connection s ci nt)) ! ci) = -1"
  using assms
  by (auto simp: close_connection_def free_connection_def sys_close_def Let_def)

lemma process_request_connections:
  "connections (fst (process_request os s c nt)) = connections s"
  by (simp add: process_request_def Let_def split_beta split: option.splits)

lemma process_request_connections_eq:
  "process_request os s c nt = (s', c', nt') \<Longrightarrow> connections s' = connections s"
  using process_request_connections [of os s c nt] by simp

lemma handle_read_event_connections:
  "handle_read_event os s c nt = (rc, s', c', nt') \<Longrightarrow> connections s' = connections s"
  by (auto simp: handle_read_event_def Let_def split_beta split: if_splits
      dest: process_request_connections_eq)

lemma handle_write_event_connections:
  "handle_write_event os s c nt = (rc, s', c', nt') \<Longrightarrow> connections s' = connections s"
  by (auto simp: handle_write_event_def Let_def split_beta split: if_splits)

lemma client_event_torn_down:
  assumes ci: "ci < length (connections server)" and fd: "0 \<le> fd (connections server ! ci)"
  shows "\<exists>ext. log (snd (client_event os flt ci (server, nt))) = log nt @ ext \<and>
           torn_down (fd (connections server ! ci)) ext \<and>
           (list_ex failed ext \<longrightarrow>
              fd (connections (fst (client_event os flt ci (server, nt))) ! ci) = -1)"
proof -
  define c where "c = connections server ! ci"
  define h where "h = (case flt of
               EVFILT_READ \<Rightarrow> handle_read_event os server c nt
             | EVFILT_WRITE \<Rightarrow> handle_write_event os server c nt)"
  obtain rc s1 c1 n1 where hh: "h = (rc, s1, c1, n1)"
    using prod_cases4 by blast
  have tr: "\<exists>ext. log n1 = log nt @ ext \<and> handler_trace rc ext \<and> fd c1 = fd c"
    and cs: "connections s1 = connections server"
    using hh handle_read_event_trace [of os server c nt rc s1 c1 n1]
      handle_write_event_trace [of os server c nt rc s1 c1 n1]
      handle_read_event_connections [of os server c nt rc s1 c1 n1]
      handle_write_event_connections [of os server c nt rc s1 c1 n1]
    by (cases flt; auto simp: h_def)+
  then obtain ext where ext: "log n1 = log nt @ ext" "handler_trace rc ext" "fd c1 = fd c"
    by blast
  define s2 where "s2 = s1\<lparr>connections := (connections s1)[ci := c1]\<rparr>"
  have s2: "ci < length (connections s2)" "connections s2 ! ci = c1"
    using ci cs by (simp_all add: s2_def)
  have ce: "client_event os flt ci (server, nt) =
      (if rc < 0 then close_connection s2 ci n1 else (s2, n1))"
    using hh by (cases flt; simp add: client_event_def Let_def c_def h_def s2_def)
  show ?thesis
  proof (cases "rc < 0")
    case False
    then have nf: "\<not> list_ex failed ext" using ext(2) by (auto simp: handler_trace_def)
    show ?thesis
      apply (rule exI [of _ ext])
      using False nf ext(1) ce torn_down_clean [OF nf] by simp
  next
    case True
    have f2: "0 \<le> fd (connections s2 ! ci)" using s2 ext(3) fd by (simp add: c_def)
    from close_connection_log [OF s2(1) f2, of n1]
    obtain cl where cl: "log (snd (close_connection s2 ci n1)) = log n1 @ cl"
      "list_all is_close cl" "IoClose (fd (connections s2 ! ci)) \<in> set cl"
      "fd (connections (fst (close_connection s2 ci n1)) ! ci) = -1"
      by blast
    have sk: "fd (connections s2 ! ci) = fd (connections server ! ci)"
      using s2 ext(3) by (simp add: c_def)
    have td: "torn_down (fd (connections server ! ci)) (ext @ cl)"
      using trace_close [OF ext(2) cl(2), of "fd (connections server ! ci)"] cl(3) sk by simp
    show ?thesis
      apply (rule exI [of _ "ext @ cl"])
      using True ce cl ext(1) td by simp
  qed
qed

lemma close_client_log:
  "\<exists>cl. log (snd (close_client c nt)) = log nt @ cl \<and> list_all is_close cl \<and>
        (0 \<le> a_fd c \<longrightarrow> IoClose (a_fd c) \<in> set cl) \<and>
        a_fd (fst (close_client c nt)) = -1"
  by (auto simp: close_client_def reset_client_def sys_close_def Let_def)

lemma aio_prepare_error_response_log:
  "\<exists>cl. log (snd (aio_prepare_error_response os c code nt)) = log nt @ cl \<and>
        list_all is_close cl"
  using close_client_log [of c nt]
  by (cases "aio_error_response_text code")
     (auto simp: aio_prepare_error_response_def Let_def)

lemma aio_prepare_file_response_log:
  "\<exists>cl. log (snd (aio_prepare_file_response os c fp nt)) = log nt @ cl \<and>
        list_all is_close cl"
proof -
  have e: "\<And>c' cl0. list_all is_close cl0 \<Longrightarrow>
      \<exists>cl. log (snd (aio_prepare_error_response os c' 500 (nt\<lparr>log := log nt @ cl0\<rparr>))) =
        log nt @ cl \<and> list_all is_close cl"
  proof -
    fix c' cl0 assume a: "list_all is_close cl0"
    from aio_prepare_error_response_log [of os c' 500 "nt\<lparr>log := log nt @ cl0\<rparr>"]
    obtain cl where "log (snd (aio_prepare_error_response os c' 500 (nt\<lparr>log := log nt @ cl0\<rparr>))) =
        log nt @ cl0 @ cl" "list_all is_close cl" by auto
    then show "\<exists>cl. log (snd (aio_prepare_error_response os c' 500 (nt\<lparr>log := log nt @ cl0\<rparr>))) =
        log nt @ cl \<and> list_all is_close cl"
      using a by (intro exI [of _ "cl0 @ cl"]) simp
  qed
  have e0: "\<And>c'. \<exists>cl. log (snd (aio_prepare_error_response os c' 500 nt)) =
        log nt @ cl \<and> list_all is_close cl"
    by (rule aio_prepare_error_response_log)
  show ?thesis
    using e0 e [of "[IoClose (os_open os fp)]"]
    by (auto simp: aio_prepare_file_response_def sys_close_def Let_def split: option.splits)
qed

lemma process_http_request_log:
  "\<exists>cl. log (snd (process_http_request os s c nt)) = log nt @ cl \<and> list_all is_close cl"
  using aio_prepare_error_response_log [of os c _ nt] aio_prepare_file_response_log [of os c _ nt]
  by (simp add: process_http_request_def Let_def split_beta split: option.splits)

lemma closed_after:
  assumes "log n1 = log nt @ [e]"
    and "log (snd (close_client c n1)) = log n1 @ cl" "list_all is_close cl"
    and "IoClose sock \<in> set cl" "a_fd (fst (close_client c n1)) = -1"
  shows "\<exists>ext. log (snd (close_client c n1)) = log nt @ ext \<and> torn_down sock ext \<and>
           (list_ex failed ext \<longrightarrow> a_fd (fst (close_client c n1)) = -1)"
  using assms closes_clean [of cl] torn_down_clean [of cl sock]
  by (intro exI [of _ "e # cl"]) simp

lemma clean_after:
  assumes "log nt' = log nt @ pre @ cl" "\<not> list_ex failed pre" "list_all is_close cl"
  shows "\<exists>ext. log nt' = log nt @ ext \<and> torn_down sock ext \<and> (list_ex failed ext \<longrightarrow> Q)"
proof -
  have "\<not> list_ex failed (pre @ cl)" using assms closes_clean [of cl] by simp
  then show ?thesis using assms(1) torn_down_clean [of "pre @ cl" sock]
    by (intro exI [of _ "pre @ cl"]) simp
qed

lemma handle_client_read_torn_down:
  assumes fd: "0 \<le> a_fd c"
  shows "\<exists>ext. log (snd (snd (handle_client_read os s c nt))) = log nt @ ext \<and>
           torn_down (a_fd c) ext \<and>
           (list_ex failed ext \<longrightarrow> a_fd (fst (snd (handle_client_read os s c nt))) = -1)"
proof -
  obtain n ea got n1 where rv:
    "sys_recv nt (a_fd c) (aio_kRequestBufferSize - a_request_size c - 1) = ((n, ea, got), n1)"
    by (metis prod.collapse)
  note lg = sys_recv_log [OF rv]
  show ?thesis
  proof (cases "n \<le> 0")
    case le: True
    show ?thesis
    proof (cases "n < 0 \<and> ea")
      case True
      then have r: "handle_client_read os s c nt = (s, c, n1)"
        using rv by (simp add: handle_client_read_def)
      have nf: "\<not> list_ex failed [IoRecv (a_fd c) n ea]" using True by simp
      have l: "log n1 = log nt @ [IoRecv (a_fd c) n ea] @ []" using lg by simp
      show ?thesis unfolding r snd_conv fst_conv
        by (rule clean_after [OF l nf]) simp
    next
      case False
      then have r: "snd (handle_client_read os s c nt) = close_client c n1"
        using rv le by (auto simp: handle_client_read_def split_beta)
      from close_client_log [of c n1] fd
      obtain cl where cl: "log (snd (close_client c n1)) = log n1 @ cl" "list_all is_close cl"
        "IoClose (a_fd c) \<in> set cl" "a_fd (fst (close_client c n1)) = -1"
        by blast
      from closed_after [OF lg cl] show ?thesis unfolding r .
    qed
  next
    case gt: False
    define c1 where "c1 = c\<lparr>a_request_buffer :=
                               take (a_request_size c) (a_request_buffer c) @ got,
                             a_request_size := a_request_size c + nat n\<rparr>"
    have clean: "\<not> list_ex failed [IoRecv (a_fd c) n ea]" using gt by simp
    have "log (snd (snd (handle_client_read os s c nt))) = log n1 \<or>
          snd (snd (handle_client_read os s c nt)) = snd (process_http_request os s c1 n1)"
      using rv gt by (simp add: handle_client_read_def Let_def split_beta c1_def)
    then show ?thesis
    proof
      assume a: "log (snd (snd (handle_client_read os s c nt))) = log n1"
      have l: "log (snd (snd (handle_client_read os s c nt))) =
          log nt @ [IoRecv (a_fd c) n ea] @ []" using a lg by simp
      show ?thesis by (rule clean_after [OF l clean]) simp
    next
      assume a: "snd (snd (handle_client_read os s c nt)) = snd (process_http_request os s c1 n1)"
      from process_http_request_log [of os s c1 n1]
      obtain cl where cl: "log (snd (process_http_request os s c1 n1)) = log n1 @ cl"
        "list_all is_close cl" by blast
      have l: "log (snd (snd (handle_client_read os s c nt))) =
          log nt @ [IoRecv (a_fd c) n ea] @ cl" using a lg cl(1) by simp
      show ?thesis by (rule clean_after [OF l clean cl(2)])
    qed
  qed
qed

lemma closed_clean:
  assumes "log n1 = log nt @ pre" "\<not> list_ex failed pre"
  shows "\<exists>ext. log (snd (close_client cx n1)) = log nt @ ext \<and> torn_down sock ext \<and>
           (list_ex failed ext \<longrightarrow> Q)"
proof -
  from close_client_log [of cx n1]
  obtain cl where cl: "log (snd (close_client cx n1)) = log n1 @ cl" "list_all is_close cl"
    by blast
  have l: "log (snd (close_client cx n1)) = log nt @ pre @ cl" using cl(1) assms(1) by simp
  show ?thesis by (rule clean_after [OF l assms(2) cl(2)])
qed

lemma sent_torn_down:
  assumes fd: "0 \<le> a_fd c" and lg: "log n1 = log nt @ [IoSend (a_fd c) bytes n ea]"
    and r: "if n \<le> 0
            then (if n < 0 \<and> ea then (c', nt') = (c, n1) else close_client c n1 = (c', nt'))
            else (nt' = n1 \<or> (\<exists>cx. close_client cx n1 = (c', nt')))"
  shows "\<exists>ext. log nt' = log nt @ ext \<and> torn_down (a_fd c) ext \<and>
           (list_ex failed ext \<longrightarrow> a_fd c' = -1)"
proof (cases "n \<le> 0")
  case le: True
  show ?thesis
  proof (cases "n < 0 \<and> ea")
    case True
    then have r': "nt' = n1" using r le by simp
    have nf: "\<not> list_ex failed [IoSend (a_fd c) bytes n ea]" using True by simp
    have l: "log n1 = log nt @ [IoSend (a_fd c) bytes n ea] @ []" using lg by simp
    show ?thesis unfolding r'
      by (rule clean_after [OF l nf]) simp
  next
    case False
    then have r': "close_client c n1 = (c', nt')" using r le by auto
    from close_client_log [of c n1] fd
    obtain cl where cl: "log (snd (close_client c n1)) = log n1 @ cl" "list_all is_close cl"
      "IoClose (a_fd c) \<in> set cl" "a_fd (fst (close_client c n1)) = -1"
      by blast
    from closed_after [OF lg cl] show ?thesis unfolding r' snd_conv fst_conv .
  qed
next
  case gt: False
  have clean: "\<not> list_ex failed [IoSend (a_fd c) bytes n ea]" using gt by simp
  from r gt have "nt' = n1 \<or> (\<exists>cx. close_client cx n1 = (c', nt'))" by simp
  then show ?thesis
  proof
    assume a: "nt' = n1"
    have l: "log n1 = log nt @ [IoSend (a_fd c) bytes n ea] @ []" using lg by simp
    show ?thesis unfolding a
      by (rule clean_after [OF l clean]) simp
  next
    assume "\<exists>cx. close_client cx n1 = (c', nt')"
    then obtain cx where a: "close_client cx n1 = (c', nt')" ..
    from closed_clean [OF lg clean, of cx "a_fd c" "a_fd c' = -1"]
    show ?thesis unfolding a snd_conv .
  qed
qed

lemma handle_client_write_header_log:
  assumes fd: "0 \<le> a_fd c" and h: "handle_client_write os s c nt = (s', c', nt')"
    and b: "a_response_buffer c = Some buffer"
  shows "\<exists>ext. log nt' = log nt @ ext \<and> torn_down (a_fd c) ext \<and>
           (list_ex failed ext \<longrightarrow> a_fd c' = -1)"
proof -
  define offered where "offered = take (a_response_size c - a_response_sent c)
                     (drop (a_response_sent c) buffer)"
  obtain n ea n1 where sv: "sys_send nt (a_fd c) offered = ((n, ea), n1)"
    by (metis prod.collapse)
  note lg = sys_send_log [OF sv]
  note h' = h [unfolded handle_client_write_def Let_def b option.case offered_def [symmetric] sv
      prod.case]
  have r: "if n \<le> 0
            then (if n < 0 \<and> ea then (c', nt') = (c, n1) else close_client c n1 = (c', nt'))
            else (nt' = n1 \<or> (\<exists>cx. close_client cx n1 = (c', nt')))"
    using h' by (auto split: prod.splits if_splits)
  show ?thesis by (rule sent_torn_down [OF fd lg r])
qed

lemma handle_client_write_file_log:
  assumes fd: "0 \<le> a_fd c" and h: "handle_client_write os s c nt = (s', c', nt')"
    and b: "a_response_buffer c = None"
  shows "\<exists>ext. log nt' = log nt @ ext \<and> torn_down (a_fd c) ext \<and>
           (list_ex failed ext \<longrightarrow> a_fd c' = -1)"
proof (cases "a_file_fd c \<ge> 0")
  case False
  then have r: "nt' = nt" using h b by (simp add: handle_client_write_def)
  have l: "log nt = log nt @ [] @ []" by simp
  show ?thesis unfolding r by (rule clean_after [OF l]) simp_all
next
  case ff: True
  define tr where "tr = nat (if a_file_offset c + int aio_kResponseBufferSize > a_file_size c
                   then a_file_size c - a_file_offset c
                   else int aio_kResponseBufferSize)"
  have e0: "log nt = log nt @ []" "\<not> list_ex failed []" by simp_all
  note h' = h [unfolded handle_client_write_def Let_def b option.case tr_def [symmetric]]
  show ?thesis
  proof (cases "os_pread os (a_file_fd c) tr (a_file_offset c)")
    case None
    then have "close_client c nt = (c', nt')"
      using h' ff by (auto split: prod.splits if_splits)
    with closed_clean [OF e0, of c "a_fd c" "a_fd c' = -1"] show ?thesis by simp
  next
    case (Some bytes)
    obtain n ea n1 where sv: "sys_send nt (a_fd c) (take tr bytes) = ((n, ea), n1)"
      by (metis prod.collapse)
    note lg = sys_send_log [OF sv]
    note h2 = h' [unfolded Some option.case]
    have r: "close_client c nt = (c', nt') \<or>
       (if n \<le> 0
            then (if n < 0 \<and> ea then (c', nt') = (c, n1) else close_client c n1 = (c', nt'))
            else (nt' = n1 \<or> (\<exists>cx. close_client cx n1 = (c', nt'))))"
      using h2 ff sv by (auto split: prod.splits if_splits)
    then show ?thesis
    proof
      assume "close_client c nt = (c', nt')"
      with closed_clean [OF e0, of c "a_fd c" "a_fd c' = -1"] show ?thesis by simp
    next
      assume r': "if n \<le> 0
            then (if n < 0 \<and> ea then (c', nt') = (c, n1) else close_client c n1 = (c', nt'))
            else (nt' = n1 \<or> (\<exists>cx. close_client cx n1 = (c', nt')))"
      show ?thesis by (rule sent_torn_down [OF fd lg r'])
    qed
  qed
qed

lemma ex_broken_eq:
  "ex_broken = \<lparr>recvq = [Recvd []], sendq = [SendError], log = [IoRecv 5 28 False]\<rparr>"
  by (simp add: ex_broken_def ex_requested_eq)

lemma ex_send_failed_log:
  "log (snd (client_event ex_os EVFILT_WRITE 0 (fst ex_requested, ex_broken))) =
     [IoRecv 5 28 False, IoSend 5 ex_index_header (-1) False, IoClose 5, IoClose 7]"
  by (simp add: ex_broken_eq ex_requested_eq ex_accepted_eq client_event_def
      handle_write_event_def send_response_def send_response_header_def sys_send_def
      ex_index_header_len buf_bytes_def Let_def close_connection_def free_connection_def
      sys_close_def zero_connection_def)

lemma handle_client_write_torn_down:
  assumes fd: "0 \<le> a_fd c"
  shows "\<exists>ext. log (snd (snd (handle_client_write os s c nt))) = log nt @ ext \<and>
           torn_down (a_fd c) ext \<and>
           (list_ex failed ext \<longrightarrow> a_fd (fst (snd (handle_client_write os s c nt))) = -1)"
proof -
  obtain s' c' nt' where h: "handle_client_write os s c nt = (s', c', nt')"
    using prod_cases3 by blast
  have "\<exists>ext. log nt' = log nt @ ext \<and> torn_down (a_fd c) ext \<and>
           (list_ex failed ext \<longrightarrow> a_fd c' = -1)"
  proof (cases "a_response_buffer c")
    case None
    then show ?thesis by (rule handle_client_write_file_log [OF fd h])
  next
    case (Some buffer)
    then show ?thesis by (rule handle_client_write_header_log [OF fd h])
  qed
  then show ?thesis unfolding h by simp
qed

lemma aio_client_io_torn_down:
  assumes fd: "0 \<le> a_fd c"
  shows "\<exists>ext. log (snd (snd (aio_client_io os rr rw s c nt))) = log nt @ ext \<and>
           torn_down (a_fd c) ext \<and>
           (list_ex failed ext \<longrightarrow> a_fd (fst (snd (aio_client_io os rr rw s c nt))) = -1)"
proof -
  have l: "log nt = log nt @ [] @ []" by simp
  have nothing: "\<exists>ext. log nt = log nt @ ext \<and> torn_down (a_fd c) ext \<and>
           (list_ex failed ext \<longrightarrow> a_fd c = -1)"
    by (rule clean_after [OF l]) simp_all
  show ?thesis
  proof (cases "a_state c = AIO_STATE_READING_REQUEST \<and> rr")
    case True
    obtain s1 c1 n1 where h: "handle_client_read os s c nt = (s1, c1, n1)"
      using prod_cases3 by blast
    have e: "aio_client_io os rr rw s c nt = handle_client_read os s c nt"
      using fd True h by (simp add: aio_client_io_def)
    show ?thesis unfolding e by (rule handle_client_read_torn_down [OF fd])
  next
    case nr: False
    show ?thesis
    proof (cases "a_state c = AIO_STATE_SENDING_RESPONSE \<and> rw")
      case True
      have e: "aio_client_io os rr rw s c nt = handle_client_write os s c nt"
        using fd True nr by (auto simp: aio_client_io_def)
      show ?thesis unfolding e by (rule handle_client_write_torn_down [OF fd])
    next
      case False
      have e: "aio_client_io os rr rw s c nt = (s, c, nt)"
        using fd False nr by (auto simp: aio_client_io_def)
      show ?thesis unfolding e using nothing by simp
    qed
  qed
qed

lemma read_event_not_reading:
  assumes "ci < length (connections server)"
    and "state (connections server ! ci) \<noteq> STATE_READING_REQUEST"
  shows "client_event os EVFILT_READ ci (server, nt) = (server, nt)"
  using assms by (simp add: client_event_def handle_read_event_def Let_def)

lemma aio_client_io_not_reading:
  assumes "a_state client \<noteq> AIO_STATE_READING_REQUEST"
  shows "aio_client_io os rr rw aserver client nt = aio_client_io os False rw aserver client nt"
  using assms by (simp add: aio_client_io_def)

lemma ex_aio_io_failed_log:
  "log (snd (snd (aio_client_io ex_os True True (fst ex_aio_requested)
       (fst (snd ex_aio_requested)) ex_broken))) =
     [IoRecv 5 28 False, IoSend 5 ex_index_header (-1) False, IoClose 5, IoClose 7]"
  by (simp add: aio_client_io_def ex_broken_eq ex_aio_requested_eq ex_aio_full_eq
      handle_client_write_def
      sys_send_def ex_index_header_len reset_client_def zero_client_def
      close_client_def sys_close_def Let_def)

lemma ex_recv_closed_log:
  "log (snd (client_event ex_os EVFILT_READ 0 (fst ex_accepted, ex_net\<lparr>recvq := [Recvd []]\<rparr>))) =
     [IoRecv 5 0 False, IoClose 5]"
  by (simp add: ex_accepted_eq client_event_def handle_read_event_def sys_recv_def ex_net_def
      zero_connection_def kRequestBufferSize_def Let_def close_connection_def
      free_connection_def sys_close_def)

lemma ex_aio_recv_closed_log:
  "log (snd (snd (aio_client_io ex_os True True (fst ex_aio_full) (clients (fst ex_aio_full) ! 0)
       (ex_net\<lparr>recvq := [Recvd []]\<rparr>)))) =
     [IoRecv 5 0 False, IoClose 5]"
  by (simp add: aio_client_io_def ex_aio_full_eq handle_client_read_def sys_recv_def ex_net_def
      aio_kRequestBufferSize_def reset_client_def zero_client_def
      close_client_def sys_close_def Let_def)

text \<open>
  Claim C8, as amended. For a connection that holds its socket, in any state, the calls
  one event adds to the log are such that after a \<open>recv\<close> or \<open>send\<close> that failed
  (a return value of 0, or a negative one with \<open>errno\<close> other than \<open>EAGAIN\<close>)
  only \<open>close\<close> follows, the socket is among the descriptors closed, and the record
  is left with \<open>fd = -1\<close>: nothing is sent or received after the failure. This holds
  for an event of the kqueue server, whose loop calls \<open>close_connection\<close> on the
  negative return value, and for what one pass of the loop of the select server does
  for a client, whatever \<open>select\<close> reports ready. The failure is one of a call the
  server makes, and neither server calls \<open>recv\<close> outside the state of reading the
  request: there the read event of the kqueue server changes nothing, and the select
  server does what it does when the socket is not readable.
\<close>

theorem transport_failure_closes:
  assumes "ci < length (connections server)" and "0 \<le> fd (connections server ! ci)"
    and "0 \<le> a_fd client"
  shows
    "(\<exists>ext. log (snd (client_event os flt ci (server, nt))) = log nt @ ext \<and>
        torn_down (fd (connections server ! ci)) ext \<and>
        (list_ex failed ext \<longrightarrow>
           fd (connections (fst (client_event os flt ci (server, nt))) ! ci) = -1)) \<and>
     (\<exists>ext. log (snd (snd (aio_client_io os readable writable aserver client nt))) =
             log nt @ ext \<and>
        torn_down (a_fd client) ext \<and>
        (list_ex failed ext \<longrightarrow>
           a_fd (fst (snd (aio_client_io os readable writable aserver client nt))) = -1)) \<and>
     (state (connections server ! ci) \<noteq> STATE_READING_REQUEST \<longrightarrow>
        client_event os EVFILT_READ ci (server, nt) = (server, nt)) \<and>
     (a_state client \<noteq> AIO_STATE_READING_REQUEST \<longrightarrow>
        aio_client_io os readable writable aserver client nt =
          aio_client_io os False writable aserver client nt)"
proof (intro conjI)
  show "\<exists>ext. log (snd (client_event os flt ci (server, nt))) = log nt @ ext \<and>
        torn_down (fd (connections server ! ci)) ext \<and>
        (list_ex failed ext \<longrightarrow>
           fd (connections (fst (client_event os flt ci (server, nt))) ! ci) = -1)"
    by (rule client_event_torn_down [OF assms(1,2)])
  show "\<exists>ext. log (snd (snd (aio_client_io os readable writable aserver client nt))) =
             log nt @ ext \<and>
        torn_down (a_fd client) ext \<and>
        (list_ex failed ext \<longrightarrow>
           a_fd (fst (snd (aio_client_io os readable writable aserver client nt))) = -1)"
    by (rule aio_client_io_torn_down [OF assms(3)])
  show "state (connections server ! ci) \<noteq> STATE_READING_REQUEST \<longrightarrow>
        client_event os EVFILT_READ ci (server, nt) = (server, nt)"
    using read_event_not_reading [OF assms(1)] by blast
  show "a_state client \<noteq> AIO_STATE_READING_REQUEST \<longrightarrow>
        aio_client_io os readable writable aserver client nt =
          aio_client_io os False writable aserver client nt"
    using aio_client_io_not_reading by blast
qed

text \<open>
  The response to the request for \<open>/index.html\<close> is ready and the next \<open>send\<close>
  fails: each server closes the socket 5 and the file 7 and calls nothing else, and the
  read event of the kqueue server changes nothing. A connection just accepted on which
  the next \<open>recv\<close> returns 0: each server closes the socket 5.
\<close>

theorem transport_failure_closes_witness:
  "log (snd (client_event ex_os EVFILT_WRITE 0 (fst ex_requested, ex_broken))) =
     [IoRecv 5 28 False, IoSend 5 ex_index_header (-1) False, IoClose 5, IoClose 7] \<and>
   fd (connections (fst (client_event ex_os EVFILT_WRITE 0 (fst ex_requested, ex_broken))) ! 0)
     = -1 \<and>
   log (snd (snd (aio_client_io ex_os True True (fst ex_aio_requested)
       (fst (snd ex_aio_requested)) ex_broken))) =
     [IoRecv 5 28 False, IoSend 5 ex_index_header (-1) False, IoClose 5, IoClose 7] \<and>
   a_fd (fst (snd (aio_client_io ex_os True True (fst ex_aio_requested)
       (fst (snd ex_aio_requested)) ex_broken))) = -1 \<and>
   client_event ex_os EVFILT_READ 0 (fst ex_requested, ex_broken) =
     (fst ex_requested, ex_broken) \<and>
   log (snd (client_event ex_os EVFILT_READ 0 (fst ex_accepted, ex_net\<lparr>recvq := [Recvd []]\<rparr>))) =
     [IoRecv 5 0 False, IoClose 5] \<and>
   fd (connections (fst (client_event ex_os EVFILT_READ 0
       (fst ex_accepted, ex_net\<lparr>recvq := [Recvd []]\<rparr>))) ! 0) = -1 \<and>
   log (snd (snd (aio_client_io ex_os True True (fst ex_aio_full) (clients (fst ex_aio_full) ! 0)
       (ex_net\<lparr>recvq := [Recvd []]\<rparr>)))) =
     [IoRecv 5 0 False, IoClose 5] \<and>
   a_fd (fst (snd (aio_client_io ex_os True True (fst ex_aio_full) (clients (fst ex_aio_full) ! 0)
       (ex_net\<lparr>recvq := [Recvd []]\<rparr>)))) = -1"
proof -
  have pre: "0 < length (connections (fst ex_requested))"
    "0 \<le> fd (connections (fst ex_requested) ! 0)"
    "0 \<le> a_fd (fst (snd ex_aio_requested))"
    by (simp_all add: ex_requested_eq ex_accepted_eq ex_aio_requested_eq ex_aio_full_eq)
  have pre2: "0 < length (connections (fst ex_accepted))"
    "0 \<le> fd (connections (fst ex_accepted) ! 0)"
    "0 \<le> a_fd (clients (fst ex_aio_full) ! 0)"
    by (simp_all add: ex_accepted_eq ex_aio_full_eq)
  have lg: "log ex_broken = [IoRecv 5 28 False]" by (simp add: ex_broken_eq)
  have lg2: "log (ex_net\<lparr>recvq := [Recvd []]\<rparr>) = []" by (simp add: ex_net_def)
  have st: "state (connections (fst ex_requested) ! 0) \<noteq> STATE_READING_REQUEST"
    by (simp add: ex_requested_eq ex_accepted_eq)
  note t = transport_failure_closes [OF pre, of ex_os EVFILT_WRITE ex_broken True True
      "fst ex_aio_requested"]
  note t2 = transport_failure_closes [OF pre2, of ex_os EVFILT_READ "ex_net\<lparr>recvq := [Recvd []]\<rparr>"
      True True "fst ex_aio_full"]
  have a: "log (snd (client_event ex_os EVFILT_WRITE 0 (fst ex_requested, ex_broken))) =
     [IoRecv 5 28 False, IoSend 5 ex_index_header (-1) False, IoClose 5, IoClose 7] \<and>
   fd (connections (fst (client_event ex_os EVFILT_WRITE 0 (fst ex_requested, ex_broken))) ! 0)
     = -1 \<and>
   log (snd (snd (aio_client_io ex_os True True (fst ex_aio_requested)
       (fst (snd ex_aio_requested)) ex_broken))) =
     [IoRecv 5 28 False, IoSend 5 ex_index_header (-1) False, IoClose 5, IoClose 7] \<and>
   a_fd (fst (snd (aio_client_io ex_os True True (fst ex_aio_requested)
       (fst (snd ex_aio_requested)) ex_broken))) = -1 \<and>
   client_event ex_os EVFILT_READ 0 (fst ex_requested, ex_broken) =
     (fst ex_requested, ex_broken)"
    using t st unfolding ex_send_failed_log ex_aio_io_failed_log lg by auto
  have b: "log (snd (client_event ex_os EVFILT_READ 0 (fst ex_accepted, ex_net\<lparr>recvq := [Recvd []]\<rparr>))) =
     [IoRecv 5 0 False, IoClose 5] \<and>
   fd (connections (fst (client_event ex_os EVFILT_READ 0
       (fst ex_accepted, ex_net\<lparr>recvq := [Recvd []]\<rparr>))) ! 0) = -1 \<and>
   log (snd (snd (aio_client_io ex_os True True (fst ex_aio_full) (clients (fst ex_aio_full) ! 0)
       (ex_net\<lparr>recvq := [Recvd []]\<rparr>)))) =
     [IoRecv 5 0 False, IoClose 5] \<and>
   a_fd (fst (snd (aio_client_io ex_os True True (fst ex_aio_full) (clients (fst ex_aio_full) ! 0)
       (ex_net\<lparr>recvq := [Recvd []]\<rparr>)))) = -1"
    using t2 unfolding ex_recv_closed_log ex_aio_recv_closed_log lg2 by auto
  from a b show ?thesis by blast
qed

text \<open>
  The claim as stated fails while a server sends. In the kqueue server
  \<open>handle_read_event\<close> returns 0 before it calls \<open>recv\<close> when the state is not
  that of reading the request; in the select server the socket of a client that sends
  is not in \<open>read_fds\<close>. With the peer's close waiting to be read, the connection
  keeps its socket, the close stays unread, and the next write sends the header.
\<close>

theorem peer_close_unread_while_sending:
  "recvq (snd ex_peer_closed) = [Recvd []] \<and>
   fd (connections (fst ex_peer_closed) ! 0) = 5 \<and>
   state (connections (fst ex_peer_closed) ! 0) = STATE_SENDING_HEADER \<and>
   wire 5 (log (snd ex_peer_closed)) = [] \<and>
   client_event ex_os EVFILT_READ 0 ex_peer_closed = ex_peer_closed \<and>
   fd (connections (fst (client_event ex_os EVFILT_WRITE 0 ex_peer_closed)) ! 0) = 5 \<and>
   wire 5 (log (snd (client_event ex_os EVFILT_WRITE 0 ex_peer_closed))) = ex_index_header \<and>
   recvq ex_aio_peer_closed = [Recvd []] \<and>
   a_fd (fst (snd ex_aio_requested)) = 5 \<and>
   a_state (fst (snd ex_aio_requested)) = AIO_STATE_SENDING_RESPONSE \<and>
   wire 5 (log ex_aio_peer_closed) = [] \<and>
   recvq (snd (snd (aio_client_io ex_os True True (fst ex_aio_requested)
       (fst (snd ex_aio_requested)) ex_aio_peer_closed))) = [Recvd []] \<and>
   a_fd (fst (snd (aio_client_io ex_os True True (fst ex_aio_requested)
       (fst (snd ex_aio_requested)) ex_aio_peer_closed))) = 5 \<and>
   wire 5 (log (snd (snd (aio_client_io ex_os True True (fst ex_aio_requested)
       (fst (snd ex_aio_requested)) ex_aio_peer_closed)))) = ex_index_header"
proof -
  have pr: "os_pread ex_os 7 37 0 = Some ex_index"
    by (simp add: ex_os_def ex_index_len)
  have ne: "ex_index \<noteq> []" by (simp add: ex_index_def)
  have k: "recvq (snd ex_peer_closed) = [Recvd []] \<and>
   fd (connections (fst ex_peer_closed) ! 0) = 5 \<and>
   state (connections (fst ex_peer_closed) ! 0) = STATE_SENDING_HEADER \<and>
   wire 5 (log (snd ex_peer_closed)) = [] \<and>
   client_event ex_os EVFILT_READ 0 ex_peer_closed = ex_peer_closed \<and>
   fd (connections (fst (client_event ex_os EVFILT_WRITE 0 ex_peer_closed)) ! 0) = 5 \<and>
   wire 5 (log (snd (client_event ex_os EVFILT_WRITE 0 ex_peer_closed))) = ex_index_header"
    using ne
    by (simp add: ex_peer_closed_def ex_requested_eq ex_accepted_eq client_event_def
        handle_read_event_def handle_write_event_def
        send_response_def send_response_header_def send_response_file_def sys_send_def
        kResponseBufferSize_def pr ex_index_len ex_index_header_len buf_bytes_def Let_def
        zero_connection_def)
  have a: "recvq ex_aio_peer_closed = [Recvd []] \<and>
   a_fd (fst (snd ex_aio_requested)) = 5 \<and>
   a_state (fst (snd ex_aio_requested)) = AIO_STATE_SENDING_RESPONSE \<and>
   wire 5 (log ex_aio_peer_closed) = [] \<and>
   recvq (snd (snd (aio_client_io ex_os True True (fst ex_aio_requested)
       (fst (snd ex_aio_requested)) ex_aio_peer_closed))) = [Recvd []] \<and>
   a_fd (fst (snd (aio_client_io ex_os True True (fst ex_aio_requested)
       (fst (snd ex_aio_requested)) ex_aio_peer_closed))) = 5 \<and>
   wire 5 (log (snd (snd (aio_client_io ex_os True True (fst ex_aio_requested)
       (fst (snd ex_aio_requested)) ex_aio_peer_closed)))) = ex_index_header"
    by (simp add: ex_aio_peer_closed_def aio_client_io_def ex_aio_requested_eq ex_aio_full_eq
        handle_client_write_def sys_send_def ex_index_header_len reset_client_def
        zero_client_def Let_def)
  from k a show ?thesis by blast
qed

subsection \<open>The counters\<close>

lemma process_request_stats:
  assumes "stats_apart s t"
  shows "snd (process_request os s c nt) = snd (process_request os t c nt) \<and>
         stats_apart (fst (process_request os s c nt)) (fst (process_request os t c nt))"
proof -
  have d: "doc_root s = doc_root t" using assms by (simp add: stats_apart_def)
  show ?thesis
    using assms
    by (simp add: process_request_def d Let_def split_beta stats_apart_def
        split: option.splits)
qed

lemma handle_read_event_stats:
  assumes "stats_apart s t"
  shows "fst (handle_read_event os s c nt) = fst (handle_read_event os t c nt) \<and>
         snd (snd (handle_read_event os s c nt)) = snd (snd (handle_read_event os t c nt)) \<and>
         stats_apart (fst (snd (handle_read_event os s c nt)))
           (fst (snd (handle_read_event os t c nt)))"
  using assms process_request_stats [OF assms, of os _ "snd (sys_recv nt (fd c)
      (request_capacity c - request_size c - 1))"]
  by (simp add: handle_read_event_def Let_def split_beta)

lemma handle_write_event_stats:
  assumes "stats_apart s t"
  shows "fst (handle_write_event os s c nt) = fst (handle_write_event os t c nt) \<and>
         snd (snd (handle_write_event os s c nt)) = snd (snd (handle_write_event os t c nt)) \<and>
         stats_apart (fst (snd (handle_write_event os s c nt)))
           (fst (snd (handle_write_event os t c nt)))"
  using assms by (simp add: handle_write_event_def Let_def split_beta)

lemma free_connection_stats:
  assumes "stats_apart s t"
  shows "snd (free_connection s ci nt) = snd (free_connection t ci nt) \<and>
         stats_apart (fst (free_connection s ci nt)) (fst (free_connection t ci nt))"
  using assms by (simp add: free_connection_def Let_def split_beta stats_apart_def)

lemma put_stats:
  "stats_apart s t \<Longrightarrow>
   stats_apart (s\<lparr>connections := (connections s)[ci := c]\<rparr>)
     (t\<lparr>connections := (connections t)[ci := c]\<rparr>)"
  by (simp add: stats_apart_def)

lemma client_event_stats:
  assumes sa: "stats_apart s t"
  shows "snd (client_event os flt ci (s, nt)) = snd (client_event os flt ci (t, nt)) \<and>
         stats_apart (fst (client_event os flt ci (s, nt))) (fst (client_event os flt ci (t, nt)))"
proof -
  have cs: "connections s = connections t" using sa by (simp add: stats_apart_def)
  define hs where "hs = (case flt of
               EVFILT_READ \<Rightarrow> handle_read_event os s (connections s ! ci) nt
             | EVFILT_WRITE \<Rightarrow> handle_write_event os s (connections s ! ci) nt)"
  define ht where "ht = (case flt of
               EVFILT_READ \<Rightarrow> handle_read_event os t (connections t ! ci) nt
             | EVFILT_WRITE \<Rightarrow> handle_write_event os t (connections t ! ci) nt)"
  have e: "fst hs = fst ht \<and> snd (snd hs) = snd (snd ht) \<and>
           stats_apart (fst (snd hs)) (fst (snd ht))"
    using handle_read_event_stats [OF sa, of os "connections t ! ci" nt]
      handle_write_event_stats [OF sa, of os "connections t ! ci" nt]
    by (cases flt; simp add: hs_def ht_def cs)
  obtain rc s1 c1 n1 where hs1: "hs = (rc, s1, c1, n1)" using prod_cases4 by blast
  obtain rc' t1 c1' n1' where ht1: "ht = (rc', t1, c1', n1')" using prod_cases4 by blast
  have eq: "rc' = rc" "c1' = c1" "n1' = n1" "stats_apart s1 t1"
    using e hs1 ht1 by simp_all
  have rs: "client_event os flt ci (s, nt) =
      (if rc < 0 then close_connection (s1\<lparr>connections := (connections s1)[ci := c1]\<rparr>) ci n1
       else (s1\<lparr>connections := (connections s1)[ci := c1]\<rparr>, n1))"
    using hs1 by (cases flt; simp add: client_event_def Let_def hs_def)
  have rt: "client_event os flt ci (t, nt) =
      (if rc < 0 then close_connection (t1\<lparr>connections := (connections t1)[ci := c1]\<rparr>) ci n1
       else (t1\<lparr>connections := (connections t1)[ci := c1]\<rparr>, n1))"
    using ht1 eq by (cases flt; simp add: client_event_def Let_def ht_def)
  note p = put_stats [OF eq(4), of ci c1]
  show ?thesis
    unfolding rs rt close_connection_def
    using p free_connection_stats [OF p, of ci n1] by simp
qed

lemma alloc_connection_stats:
  assumes "stats_apart s t"
  shows "fst (alloc_connection s) = fst (alloc_connection t) \<and>
         stats_apart (snd (alloc_connection s)) (snd (alloc_connection t))"
  using assms
  by (simp add: alloc_connection_def Let_def stats_apart_def split: option.splits)

lemma accept_connections_stats:
  "stats_apart s t \<Longrightarrow>
   snd (accept_connections os pending (s, nt)) = snd (accept_connections os pending (t, nt)) \<and>
   stats_apart (fst (accept_connections os pending (s, nt)))
     (fst (accept_connections os pending (t, nt)))"
proof (induction pending arbitrary: s t nt)
  case Nil
  then show ?case by simp
next
  case (Cons sock pending)
  note sa = Cons.prems
  show ?case
  proof (cases "sock < 0")
    case True
    then show ?thesis using sa by simp
  next
    case nn: False
    obtain r s1 where as: "alloc_connection s = (r, s1)" by fastforce
    obtain r' t1 where at: "alloc_connection t = (r', t1)" by fastforce
    from alloc_connection_stats [OF sa] as at
    have e: "r' = r" "stats_apart s1 t1" by simp_all
    show ?thesis
    proof (cases r)
      case None
      then show ?thesis using nn as at e Cons.IH [OF e(2), of "sys_close nt sock"] by simp
    next
      case (Some ci)
      have cs: "connections s1 = connections t1" using e(2) by (simp add: stats_apart_def)
      define c1 where "c1 = (connections t1 ! ci)\<lparr>fd := sock\<rparr>"
      define s2 where "s2 = s1\<lparr>connections := (connections s1)[ci := c1]\<rparr>"
      define t2 where "t2 = t1\<lparr>connections := (connections t1)[ci := c1]\<rparr>"
      have s2: "stats_apart s2 t2" unfolding s2_def t2_def by (rule put_stats [OF e(2)])
      define c2 where "c2 = (if request_buffer c1 = None
                          then c1\<lparr>request_buffer := Some [],
                                    request_capacity := kRequestBufferSize\<rparr>
                          else c1)"
      define s3 where "s3 = s2\<lparr>connections := (connections s2)[ci := c2]\<rparr>"
      define t3 where "t3 = t2\<lparr>connections := (connections t2)[ci := c2]\<rparr>"
      have s3: "stats_apart s3 t3" unfolding s3_def t3_def by (rule put_stats [OF s2])
      have rs: "accept_connections os (sock # pending) (s, nt) =
          (if request_buffer c1 = None \<and> \<not> os_malloc_ok os
           then accept_connections os pending (free_connection s2 ci (sys_close nt sock))
           else if \<not> os_kevent_ok os
           then accept_connections os pending (close_connection s3 ci nt)
           else accept_connections os pending (s3, nt))"
        using nn as Some
        by (simp add: Let_def c1_def cs s2_def c2_def s3_def)
      have rt: "accept_connections os (sock # pending) (t, nt) =
          (if request_buffer c1 = None \<and> \<not> os_malloc_ok os
           then accept_connections os pending (free_connection t2 ci (sys_close nt sock))
           else if \<not> os_kevent_ok os
           then accept_connections os pending (close_connection t3 ci nt)
           else accept_connections os pending (t3, nt))"
        using nn at e(1) Some
        by (simp add: Let_def c1_def t2_def c2_def t3_def)
      obtain sa na where fs2: "free_connection s2 ci (sys_close nt sock) = (sa, na)"
        by fastforce
      obtain ta nb where ft2: "free_connection t2 ci (sys_close nt sock) = (ta, nb)"
        by fastforce
      from free_connection_stats [OF s2, of ci "sys_close nt sock"]
      have e2: "nb = na" "stats_apart sa ta" by (simp_all add: fs2 ft2)
      obtain sb nc where fs3: "free_connection s3 ci nt = (sb, nc)" by fastforce
      obtain tb nd where ft3: "free_connection t3 ci nt = (tb, nd)" by fastforce
      from free_connection_stats [OF s3, of ci nt]
      have e3: "nd = nc" "stats_apart sb tb" by (simp_all add: fs3 ft3)
      show ?thesis
        unfolding rs rt close_connection_def fs2 ft2 fs3 ft3 e2(1) e3(1)
        using Cons.IH [OF e2(2), of na] Cons.IH [OF e3(2), of nc] Cons.IH [OF s3, of nt]
        by simp
    qed
  qed
qed

lemma handle_client_read_stats:
  assumes "aio_stats_apart s t"
  shows "snd (handle_client_read os s c nt) = snd (handle_client_read os t c nt) \<and>
         aio_stats_apart (fst (handle_client_read os s c nt)) (fst (handle_client_read os t c nt))"
proof -
  have d: "a_doc_root s = a_doc_root t" using assms by (simp add: aio_stats_apart_def)
  have p: "\<And>c1 n1. process_http_request os s c1 n1 = process_http_request os t c1 n1"
    unfolding process_http_request_def d by (rule refl)
  show ?thesis
    using assms
    by (simp add: handle_client_read_def p Let_def split_beta aio_stats_apart_def)
qed

lemma accept_new_clients_stats:
  "aio_stats_apart s t \<Longrightarrow>
   snd (accept_new_clients pending (s, nt)) = snd (accept_new_clients pending (t, nt)) \<and>
   aio_stats_apart (fst (accept_new_clients pending (s, nt)))
     (fst (accept_new_clients pending (t, nt)))"
proof (induction pending arbitrary: s t nt)
  case Nil
  then show ?case by simp
next
  case (Cons sock pending)
  note sa = Cons.prems
  have cs: "clients s = clients t" using sa by (simp add: aio_stats_apart_def)
  show ?case
  proof (cases "sock < 0")
    case True
    then show ?thesis using sa by simp
  next
    case nn: False
    show ?thesis
    proof (cases "find_free_slot (clients t)")
      case None
      then show ?thesis using nn cs Cons.IH [OF sa, of "sys_close nt sock"] by simp
    next
      case (Some i)
      define c1 where "c1 = (reset_client (clients t ! i))
          \<lparr>a_fd := sock, a_state := AIO_STATE_READING_REQUEST\<rparr>"
      define s1 where "s1 = s\<lparr>clients := (clients s)[i := c1],
                         num_clients := num_clients s + 1\<rparr>"
      define t1 where "t1 = t\<lparr>clients := (clients t)[i := c1],
                         num_clients := num_clients t + 1\<rparr>"
      have s1: "aio_stats_apart s1 t1"
        using sa by (simp add: s1_def t1_def aio_stats_apart_def)
      have rs: "accept_new_clients (sock # pending) (s, nt) =
          accept_new_clients pending (s1, nt)"
        using nn Some cs by (simp add: Let_def c1_def s1_def)
      have rt: "accept_new_clients (sock # pending) (t, nt) =
          accept_new_clients pending (t1, nt)"
        using nn Some by (simp add: Let_def c1_def t1_def)
      show ?thesis unfolding rs rt by (rule Cons.IH [OF s1])
    qed
  qed
qed

lemma handle_client_write_stats:
  assumes "aio_stats_apart s t"
  shows "snd (handle_client_write os s c nt) = snd (handle_client_write os t c nt) \<and>
         aio_stats_apart (fst (handle_client_write os s c nt))
           (fst (handle_client_write os t c nt))"
proof (cases "a_response_buffer c")
  case (Some buffer)
  show ?thesis
    using assms
    by (simp add: handle_client_write_def Some Let_def split_beta aio_stats_apart_def)
next
  case None
  define tr where "tr = nat (if a_file_offset c + int aio_kResponseBufferSize > a_file_size c
                   then a_file_size c - a_file_offset c
                   else int aio_kResponseBufferSize)"
  show ?thesis
  proof (cases "os_pread os (a_file_fd c) tr (a_file_offset c)")
    case pn: None
    show ?thesis
      using assms
      unfolding handle_client_write_def Let_def None option.case tr_def [symmetric] pn
      by (simp add: split_beta aio_stats_apart_def)
  next
    case (Some bytes)
    define chunk where "chunk = take tr bytes"
    show ?thesis
      using assms
      unfolding handle_client_write_def Let_def None option.case tr_def [symmetric] Some
        chunk_def [symmetric]
      by (simp add: split_beta aio_stats_apart_def)
  qed
qed

lemma accept_counts:
  "0 \<le> sock \<Longrightarrow>
   total_connections (fst (accept_connections os [sock] (server, nt))) =
     total_connections server + (if free_list server = None then 0 else 1)"
  by (simp add: alloc_connection_def Let_def close_connection_def free_connection_def split_beta
      split: option.splits)

lemma prepare_file_response_rc:
  "os_kevent_ok os \<Longrightarrow> prepare_file_response os c fp nt = (r, c', nt') \<Longrightarrow>
   (r < 0) = (file_fd c' < 0)"
  by (auto simp: prepare_file_response_def Let_def split: if_splits option.splits)

lemma prepare_error_response_file_fd:
  "file_fd (snd (prepare_error_response os c code)) = file_fd c"
  by (cases "error_response_text code") (simp_all add: prepare_error_response_def Let_def)

lemma process_request_counts:
  assumes f: "file_fd conn < 0" and k: "os_kevent_ok os"
  shows "total_requests (fst (process_request os server conn nt)) =
           total_requests server +
           (if 0 \<le> file_fd (fst (snd (process_request os server conn nt))) then 1 else 0)"
proof -
  obtain rc request where p:
    "http_parse_request (buf_bytes (request_buffer conn)) (request_size conn) = (rc, request)"
    by (metis prod.collapse)
  show ?thesis
  proof (cases "rc \<le> 0")
    case True
    then show ?thesis using p f
      by (simp add: process_request_def prepare_error_response_file_fd)
  next
    case False
    show ?thesis
    proof (cases "http_safe_join (os_realpath os) (os_path_max os) kPathBufferSize
               (doc_root server) (path request)")
      case None
      then show ?thesis using p False f
        by (simp add: process_request_def prepare_error_response_file_fd)
    next
      case (Some fp)
      obtain r c1 n1 where pf: "prepare_file_response os conn fp nt = (r, c1, n1)"
        using prod_cases3 by blast
      note rc = prepare_file_response_rc [OF k pf]
      show ?thesis using p False Some pf rc f
        by (auto simp: process_request_def prepare_error_response_file_fd Let_def
            split: option.splits)
    qed
  qed
qed

lemma process_request_bytes:
  "total_bytes_sent (fst (process_request os s c nt)) = total_bytes_sent s"
  by (simp add: process_request_def Let_def split_beta split: option.splits)

lemma client_event_bytes:
  "total_bytes_sent (fst (client_event os flt ci (server, nt))) = total_bytes_sent server"
proof -
  have r: "total_bytes_sent (fst (snd (handle_read_event os server (connections server ! ci) nt)))
      = total_bytes_sent server"
    by (simp add: handle_read_event_def Let_def split_beta process_request_bytes)
  have w: "total_bytes_sent (fst (snd (handle_write_event os server (connections server ! ci) nt)))
      = total_bytes_sent server"
    by (simp add: handle_write_event_def Let_def split_beta)
  have f: "\<And>s i n. total_bytes_sent (fst (free_connection s i n)) = total_bytes_sent s"
    by (simp add: free_connection_def Let_def split_beta)
  show ?thesis
    using r w
    by (cases flt; simp add: client_event_def Let_def split_beta close_connection_def f)
qed

lemma handle_client_read_counts:
  assumes "sys_recv nt (a_fd c) (aio_kRequestBufferSize - a_request_size c - 1) =
             ((n, ea, got), nt1)"
  shows "a_total_requests (fst (handle_client_read os s c nt)) =
           a_total_requests s +
           (if 0 < n \<and> strstr (c_str (take (a_request_size c) (a_request_buffer c) @ got))
                         CRLFCRLF \<noteq> None
            then 1 else 0)"
  using assms by (simp add: handle_client_read_def Let_def split_beta)

lemma sys_send_le:
  "sys_send nt sock bytes = ((n, ea), n1) \<Longrightarrow> n \<le> int (length bytes)"
  by (auto simp: sys_send_def Let_def split: list.splits send_result.splits)

lemma sys_send_wire:
  assumes sv: "sys_send nt sock bytes = ((n, ea), n1)"
  shows "\<exists>delta. wire sock (log n1) = wire sock (log nt) @ delta \<and>
           (if 0 < n then int (length delta) = n else delta = [])"
  using sys_send_log [OF sv] sys_send_le [OF sv]
  by (intro exI [of _ "if 0 < n then take (nat n) bytes else []"])
     (simp add: wire_append)

lemma close_client_wire:
  "close_client cx n1 = (c', nt') \<Longrightarrow> wire sock (log nt') = wire sock (log n1)"
  using close_client_closed [of cx n1 sock] by simp

lemma sent_counted:
  assumes sv: "sys_send nt sock bytes = ((n, ea), n1)"
    and r: "nt' = n1 \<or> (\<exists>cx. close_client cx n1 = (c', nt'))"
    and b: "b' = b + (if 0 < n then word_of_int n else 0)"
  shows "\<exists>delta. wire sock (log nt') = wire sock (log nt) @ delta \<and>
           (b' :: 64 word) = b + of_nat (length delta)"
proof -
  from sys_send_wire [OF sv]
  obtain delta where d: "wire sock (log n1) = wire sock (log nt) @ delta"
    "if 0 < n then int (length delta) = n else delta = []" by blast
  have w: "wire sock (log nt') = wire sock (log n1)"
    using r close_client_wire by blast
  have "(if 0 < n then word_of_int n else 0) = (of_nat (length delta) :: 64 word)"
  proof (cases "0 < n")
    case True
    then have "n = int (length delta)" using d(2) by simp
    then show ?thesis using True by simp
  next
    case False
    then show ?thesis using d(2) by simp
  qed
  then show ?thesis using w d(1) b by (intro exI [of _ delta]) simp
qed

lemma handle_client_write_counts:
  assumes h: "handle_client_write os s c nt = (s', c', nt')"
  shows "\<exists>delta. wire (a_fd c) (log nt') = wire (a_fd c) (log nt) @ delta \<and>
           a_total_bytes_sent s' = a_total_bytes_sent s + of_nat (length delta)"
proof (cases "a_response_buffer c")
  case (Some buffer)
  define offered where "offered = take (a_response_size c - a_response_sent c)
                     (drop (a_response_sent c) buffer)"
  obtain n ea n1 where sv: "sys_send nt (a_fd c) offered = ((n, ea), n1)"
    by (metis prod.collapse)
  note h' = h [unfolded handle_client_write_def Let_def Some option.case offered_def [symmetric] sv
      prod.case]
  have r: "nt' = n1 \<or> (\<exists>cx. close_client cx n1 = (c', nt'))"
    and b: "a_total_bytes_sent s' = a_total_bytes_sent s + (if 0 < n then word_of_int n else 0)"
    using h' by (auto split: prod.splits if_splits)
  show ?thesis by (rule sent_counted [OF sv r b])
next
  case None
  have same: "(nt' = nt \<or> (\<exists>cx. close_client cx nt = (c', nt'))) \<Longrightarrow>
      a_total_bytes_sent s' = a_total_bytes_sent s \<Longrightarrow> ?thesis"
    using close_client_wire by (intro exI [of _ "[]"]) auto
  show ?thesis
  proof (cases "a_file_fd c \<ge> 0")
    case False
    then have "nt' = nt" "s' = s" using h None by (simp_all add: handle_client_write_def)
    then show ?thesis using same by simp
  next
    case ff: True
    define tr where "tr = nat (if a_file_offset c + int aio_kResponseBufferSize > a_file_size c
                   then a_file_size c - a_file_offset c
                   else int aio_kResponseBufferSize)"
    note h' = h [unfolded handle_client_write_def Let_def None option.case tr_def [symmetric]]
    show ?thesis
    proof (cases "os_pread os (a_file_fd c) tr (a_file_offset c)")
      case pn: None
      have "close_client c nt = (c', nt')" "a_total_bytes_sent s' = a_total_bytes_sent s"
        using h' ff pn by (auto split: prod.splits if_splits)
      then show ?thesis using same by blast
    next
      case (Some bytes)
      define chunk where "chunk = take tr bytes"
      obtain n ea n1 where sv: "sys_send nt (a_fd c) chunk = ((n, ea), n1)"
        by (metis prod.collapse)
      note h2 = h' [unfolded Some option.case chunk_def [symmetric]]
      have r: "close_client c nt = (c', nt') \<and> a_total_bytes_sent s' = a_total_bytes_sent s \<or>
          (nt' = n1 \<or> (\<exists>cx. close_client cx n1 = (c', nt'))) \<and>
          a_total_bytes_sent s' = a_total_bytes_sent s + (if 0 < n then word_of_int n else 0)"
        using h2 ff sv by (auto split: prod.splits if_splits)
      then show ?thesis
      proof
        assume "close_client c nt = (c', nt') \<and> a_total_bytes_sent s' = a_total_bytes_sent s"
        then show ?thesis using same by blast
      next
        assume a: "(nt' = n1 \<or> (\<exists>cx. close_client cx n1 = (c', nt'))) \<and>
          a_total_bytes_sent s' = a_total_bytes_sent s + (if 0 < n then word_of_int n else 0)"
        show ?thesis by (rule sent_counted [OF sv conjunct1 [OF a] conjunct2 [OF a]])
      qed
    qed
  qed
qed

lemma dec_nat_9: "dec_nat 9 = ''9''"
  by code_simp

lemma build_404_eq: "http_build_404 kHeaderBufferSize = Some ex_not_found"
proof -
  have l: "length ''Not Found'' = (9::nat)" by simp
  show ?thesis
    unfolding http_build_404_def Let_def l dec_nat_9
    by (simp add: kHeaderBufferSize_def CRLF_def ex_not_found_def)
qed

lemma ex_not_found_len: "length ex_not_found = 99"
  by (simp add: ex_not_found_def CRLF_def)

lemma safe_join_missing:
  "http_safe_join (os_realpath ex_os) (os_path_max ex_os) kPathBufferSize ''/var/www''
     ''/missing'' = Some ''/var/www/missing''"
  by (simp add: http_safe_join_def ex_os_def kPathBufferSize_def)

lemma ex_missing_request_facts:
  "length ex_missing_request = 25" "take 4095 ex_missing_request = ex_missing_request"
  "strstr (c_str ex_missing_request) CRLFCRLF = Some 21"
  "http_parse_request ex_missing_request 25 =
     (1, zero_req\<lparr>complete := 1, req_method := ''GET'', path := ''/missing''\<rparr>)"
  using parse_get_line [of "''/missing''" "''HTTP/1.1''" 25]
  by (simp_all add: ex_missing_request_def c_str_def CRLFCRLF_def path_field_size_def)

lemma ex_missing_eq:
  "ex_missing = ((fst ex_accepted)
     \<lparr>connections := (connections (fst ex_accepted))
        [0 := (connections (fst ex_accepted) ! 0)
           \<lparr>request_buffer := Some ex_missing_request,
            request_size := 25,
            response_buffer := Some ex_not_found,
            response_size := length ex_not_found, response_sent := 0,
            state := STATE_SENDING_HEADER\<rparr>]\<rparr>,
     \<lparr>recvq = [], sendq = [], log = [IoRecv 5 25 False]\<rparr>)"
proof -
  have os: "os_malloc_ok ex_os" "os_kevent_ok ex_os"
    "os_stat ex_os ''/var/www/missing'' = None"
    by (simp_all add: ex_os_def)
  have sz: "\<not> kHeaderBufferSize \<le> 99" by (simp add: kHeaderBufferSize_def)
  show ?thesis
    by (simp add: ex_missing_def ex_accepted_eq client_event_def handle_read_event_def
        sys_recv_def ex_net_def zero_connection_def kRequestBufferSize_def buf_bytes_def
        ex_missing_request_facts process_request_def safe_join_missing os
        prepare_error_response_def error_response_text_def build_404_eq ex_not_found_len
        sz Let_def)
qed

lemma ex_conn_file:
  "file_fd ex_conn < 0 \<and>
   file_fd (fst (snd (process_request ex_os (fst ex_accepted) ex_conn ex_counted))) = 7"
proof -
  have os: "os_stat ex_os ''/var/www/index.html'' = Some \<lparr>st_is_reg = True, st_size = 37\<rparr>"
    "os_open ex_os ''/var/www/index.html'' = 7"
    "os_fstat ex_os 7 = Some \<lparr>st_is_reg = True, st_size = 37\<rparr>"
    "os_malloc_ok ex_os" "os_kevent_ok ex_os"
    by (simp_all add: ex_os_def)
  show ?thesis
    by (simp add: ex_conn_def ex_accepted_eq zero_connection_def buf_bytes_def
        ex_request_facts process_request_def safe_join_index os
        prepare_file_response_def guess_index build_200_index_eq Let_def)
qed

lemma ex_counted_recv:
  "sys_recv ex_counted (a_fd (clients (fst ex_aio_full) ! 0))
     (aio_kRequestBufferSize - a_request_size (clients (fst ex_aio_full) ! 0) - 1) =
   ((28, False, ex_request), ex_counted\<lparr>recvq := [], log := [IoRecv 5 28 False]\<rparr>)"
  by (simp add: ex_counted_def ex_aio_full_eq sys_recv_def aio_kRequestBufferSize_def
      reset_client_def zero_client_def ex_request_facts Let_def)

lemma ex_counted_wire:
  "a_fd (fst (snd ex_aio_requested)) = 5 \<and>
   wire 5 (log (snd (snd (handle_client_write ex_os (fst ex_aio_full)
      (fst (snd ex_aio_requested)) ex_counted)))) = take 10 ex_index_header"
  by (simp add: ex_counted_def ex_aio_requested_eq ex_aio_full_eq handle_client_write_def
      sys_send_def ex_index_header_len reset_client_def zero_client_def Let_def)

text \<open>
  What the handlers do with the counters. The kqueue server adds one to
  \<open>total_connections\<close> for an accepted socket that is given a record of the pool; \<open>process_request\<close> adds one to
  \<open>total_requests\<close> exactly when it has prepared the response that sends a file, and
  not for an error response; no event of a client changes \<open>total_bytes_sent\<close>. The
  select server adds one to \<open>total_requests\<close> exactly when the bytes received so
  far hold the blank line, whatever the response, and a write event adds to
  \<open>total_bytes_sent\<close> the number of bytes it put on the socket. In both servers the
  counters are only written: from two servers that differ in their counters alone, an
  event or a round of accepting makes the same calls on the sockets and leaves servers
  that again differ in their counters alone.
\<close>

theorem statistics_counters:
  assumes "0 \<le> sock" and "file_fd conn < 0" and "os_kevent_ok os"
    and "sys_recv nt (a_fd reader) (aio_kRequestBufferSize - a_request_size reader - 1) =
           ((n, ea, got), nt1)"
    and "stats_apart server server2" and "aio_stats_apart aserver aserver2"
  shows
    "total_connections (fst (accept_connections os [sock] (server, nt))) =
       total_connections server + (if free_list server = None then 0 else 1) \<and>
     total_requests (fst (process_request os server conn nt)) =
       total_requests server +
       (if 0 \<le> file_fd (fst (snd (process_request os server conn nt))) then 1 else 0) \<and>
     total_bytes_sent (fst (client_event os flt ci (server, nt))) = total_bytes_sent server \<and>
     a_total_requests (fst (handle_client_read os aserver reader nt)) =
       a_total_requests aserver +
       (if 0 < n \<and>
           strstr (c_str (take (a_request_size reader) (a_request_buffer reader) @ got))
             CRLFCRLF \<noteq> None
        then 1 else 0) \<and>
     (\<exists>delta.
        wire (a_fd writer) (log (snd (snd (handle_client_write os aserver writer nt)))) =
          wire (a_fd writer) (log nt) @ delta \<and>
        a_total_bytes_sent (fst (handle_client_write os aserver writer nt)) =
          a_total_bytes_sent aserver + of_nat (length delta)) \<and>
     snd (client_event os flt ci (server, nt)) = snd (client_event os flt ci (server2, nt)) \<and>
     stats_apart (fst (client_event os flt ci (server, nt)))
       (fst (client_event os flt ci (server2, nt))) \<and>
     snd (accept_connections os pending (server, nt)) =
       snd (accept_connections os pending (server2, nt)) \<and>
     stats_apart (fst (accept_connections os pending (server, nt)))
       (fst (accept_connections os pending (server2, nt))) \<and>
     snd (handle_client_read os aserver reader nt) =
       snd (handle_client_read os aserver2 reader nt) \<and>
     aio_stats_apart (fst (handle_client_read os aserver reader nt))
       (fst (handle_client_read os aserver2 reader nt)) \<and>
     snd (handle_client_write os aserver writer nt) =
       snd (handle_client_write os aserver2 writer nt) \<and>
     aio_stats_apart (fst (handle_client_write os aserver writer nt))
       (fst (handle_client_write os aserver2 writer nt)) \<and>
     snd (accept_new_clients pending (aserver, nt)) =
       snd (accept_new_clients pending (aserver2, nt)) \<and>
     aio_stats_apart (fst (accept_new_clients pending (aserver, nt)))
       (fst (accept_new_clients pending (aserver2, nt)))"
proof -
  obtain s' c' nt' where h: "handle_client_write os aserver writer nt = (s', c', nt')"
    using prod_cases3 by blast
  have w: "\<exists>delta.
        wire (a_fd writer) (log (snd (snd (handle_client_write os aserver writer nt)))) =
          wire (a_fd writer) (log nt) @ delta \<and>
        a_total_bytes_sent (fst (handle_client_write os aserver writer nt)) =
          a_total_bytes_sent aserver + of_nat (length delta)"
    using handle_client_write_counts [OF h] unfolding h by simp
  show ?thesis
    apply (intro conjI)
                  apply (rule accept_counts [OF assms(1)])
                 apply (rule process_request_counts [OF assms(2,3)])
                apply (rule client_event_bytes)
               apply (rule handle_client_read_counts [OF assms(4)])
              apply (rule w)
             apply (rule conjunct1 [OF client_event_stats [OF assms(5)]])
            apply (rule conjunct2 [OF client_event_stats [OF assms(5)]])
           apply (rule conjunct1 [OF accept_connections_stats [OF assms(5)]])
          apply (rule conjunct2 [OF accept_connections_stats [OF assms(5)]])
         apply (rule conjunct1 [OF handle_client_read_stats [OF assms(6)]])
        apply (rule conjunct2 [OF handle_client_read_stats [OF assms(6)]])
       apply (rule conjunct1 [OF handle_client_write_stats [OF assms(6)]])
      apply (rule conjunct2 [OF handle_client_write_stats [OF assms(6)]])
     apply (rule conjunct1 [OF accept_new_clients_stats [OF assms(6)]])
    apply (rule conjunct2 [OF accept_new_clients_stats [OF assms(6)]])
    done
qed

text \<open>
  A second socket accepted, the request for \<open>/index.html\<close> processed by each server,
  and 10 bytes of the header sent by the select server.
\<close>

theorem statistics_counters_example:
  "total_connections (fst (accept_connections ex_os [6] (fst ex_accepted, ex_counted))) = 2 \<and>
   total_requests (fst (process_request ex_os (fst ex_accepted) ex_conn ex_counted)) = 1 \<and>
   a_total_requests (fst (handle_client_read ex_os (fst ex_aio_full)
      (clients (fst ex_aio_full) ! 0) ex_counted)) = 1 \<and>
   a_total_bytes_sent (fst (handle_client_write ex_os (fst ex_aio_full)
      (fst (snd ex_aio_requested)) ex_counted)) = 10 \<and>
   snd (client_event ex_os EVFILT_READ 0 (fst ex_accepted, ex_counted)) =
     snd (client_event ex_os EVFILT_READ 0 ((fst ex_accepted)\<lparr>total_requests := 7\<rparr>, ex_counted))"
proof -
  have k: "os_kevent_ok ex_os" by (simp add: ex_os_def)
  have sa: "stats_apart (fst ex_accepted) ((fst ex_accepted)\<lparr>total_requests := 7\<rparr>)"
    by (simp add: stats_apart_def)
  have aa: "aio_stats_apart (fst ex_aio_full) ((fst ex_aio_full)\<lparr>a_total_bytes_sent := 9\<rparr>)"
    by (simp add: aio_stats_apart_def)
  have six: "(0::int) \<le> 6" by simp
  note t = statistics_counters [OF six conjunct1 [OF ex_conn_file] k ex_counted_recv sa aa,
      where flt = EVFILT_READ and ci = 0 and writer = "fst (snd ex_aio_requested)"
        and pending = "[]"]
  have c: "total_connections (fst ex_accepted) = 1" "free_list (fst ex_accepted) \<noteq> None"
    "total_requests (fst ex_accepted) = 0" "a_total_requests (fst ex_aio_full) = 0"
    "a_total_bytes_sent (fst ex_aio_full) = 0"
    "a_request_size (clients (fst ex_aio_full) ! 0) = 0"
    "a_request_buffer (clients (fst ex_aio_full) ! 0) = []"
    by (simp_all add: ex_accepted_eq ex_aio_full_eq reset_client_def zero_client_def)
  have w: "wire 5 (log ex_counted) = []" by (simp add: ex_counted_def)
  from t show ?thesis
    by (auto simp: c w ex_conn_file ex_counted_wire ex_request_facts ex_index_header_len)
qed

text \<open>
  Claim C4, at an input where the code breaks it. The kqueue server answers the request
  for \<open>/missing\<close> with 404, sends the 99 bytes of the response and closes the
  connection. The connection was counted, yet \<open>total_requests\<close> and
  \<open>total_bytes_sent\<close> are still 0: \<open>process_request\<close> returns before it counts
  on every path that prepares an error response, and \<open>send_response\<close>, which is
  not given the server, counts no bytes. The select server counts both.
\<close>

theorem error_response_not_counted:
  "wire 5 (log (snd ex_missing_sent)) = ex_not_found \<and>
   fd (connections (fst ex_missing_sent) ! 0) = -1 \<and>
   total_connections (fst ex_missing_sent) = 1 \<and>
   total_requests (fst ex_missing_sent) = 0 \<and>
   total_bytes_sent (fst ex_missing_sent) = 0"
  by (simp add: ex_missing_sent_def ex_missing_eq ex_accepted_eq client_event_def
      handle_write_event_def send_response_def send_response_header_def sys_send_def
      ex_not_found_len buf_bytes_def Let_def close_connection_def free_connection_def
      sys_close_def zero_connection_def)

subsection \<open>What release leaves in the record\<close>


subsection \<open>The response 413, sent and closed\<close>

lemma plain_step_ok:
  assumes s: "sending_plain sock resp m c" and q: "list_all accepts (sendq nt)"
  shows "\<exists>rc c' nt' m'.
    handle_write_event os server c nt = (rc, server, c', nt') \<and>
    m \<le> m' \<and> m' \<le> length resp \<and>
    wire sock (log nt') = wire sock (log nt) @ take (m' - m) (drop m resp) \<and>
    list_all accepts (sendq nt') \<and>
    length (sendq nt) \<le> length (sendq nt') + (m' - m) \<and>
    (sendq nt \<noteq> [] \<longrightarrow> m < m') \<and>
    (if m' = length resp then rc < 0 else rc = 0 \<and> sending_plain sock resp m' c')"
proof (cases "sendq nt")
  case Nil
  have sv: "sys_send nt sock (drop m resp) =
      ((-1, True), nt\<lparr>log := log nt @ [IoSend sock (drop m resp) (-1) True]\<rparr>)"
    using Nil by (rule sys_send_empty)
  have h: "handle_write_event os server c nt =
      (0, server, c, nt\<lparr>log := log nt @ [IoSend sock (drop m resp) (-1) True]\<rparr>)"
    using s sv
    by (simp add: sending_plain_def handle_write_event_def send_response_def
        send_response_header_def buf_bytes_def Let_def)
  show ?thesis
    apply (rule exI [of _ 0], rule exI [of _ c],
        rule exI [of _ "nt\<lparr>log := log nt @ [IoSend sock (drop m resp) (-1) True]\<rparr>"],
        rule exI [of _ m])
    using h s q Nil by (simp add: wire_snoc_fail sending_plain_def)
next
  case (Cons r rest)
  then obtain k where r: "r = Sent k" "0 < k" using q by (cases r) auto
  define n where "n = min k (length resp - m)"
  have lt: "m < length resp" using s by (simp add: sending_plain_def)
  then have n0: "0 < n" "m + n \<le> length resp" using r(2) by (simp_all add: n_def)
  define nt' where "nt' = nt\<lparr>sendq := rest,
         log := log nt @ [IoSend sock (drop m resp) (int n) False]\<rparr>"
  have sv: "sys_send nt sock (drop m resp) = ((int n, False), nt')"
    using sys_send_Sent [of nt k rest sock "drop m resp"] Cons r(1)
    by (simp add: n_def nt'_def)
  define c' where "c' = c\<lparr>response_sent := m + n\<rparr>"
  have h: "handle_write_event os server c nt =
      ((if m + n = length resp then -1 else 0), server, c', nt')"
    using s sv n0
    by (auto simp: sending_plain_def handle_write_event_def send_response_def
        send_response_header_def send_response_file_def buf_bytes_def Let_def c'_def)
  have w: "wire sock (log nt') = wire sock (log nt) @ take (m + n - m) (drop m resp)"
    using n0 by (simp add: nt'_def wire_snoc_send)
  have q': "list_all accepts (sendq nt')" using q Cons by (simp add: nt'_def)
  have ln: "length (sendq nt) \<le> length (sendq nt') + (m + n - m)"
    using Cons n0 by (simp add: nt'_def)
  have fin: "if m + n = length resp then (if m + n = length resp then -1 else 0 :: int) < 0
             else (if m + n = length resp then -1 else 0 :: int) = 0 \<and>
                  sending_plain sock resp (m + n) c'"
    using s n0 by (auto simp: sending_plain_def c'_def)
  show ?thesis
    apply (rule exI [of _ "if m + n = length resp then -1 else 0"], rule exI [of _ c'],
        rule exI [of _ nt'], rule exI [of _ "m + n"])
    using h w q' ln fin n0 by simp
qed

lemma plain_events_prefix:
  "sending_plain sock resp m c \<Longrightarrow> list_all accepts (sendq nt) \<Longrightarrow>
     \<exists>j. wire sock (log (snd (snd (write_events k os server c nt)))) =
            wire sock (log nt) @ take j (drop m resp) \<and>
         (fst (write_events k os server c nt) \<longrightarrow> take j (drop m resp) = drop m resp)"
proof (induction k arbitrary: m c nt)
  case 0
  have "wire sock (log (snd (snd (write_events 0 os server c nt)))) =
        wire sock (log nt) @ take 0 (drop m resp) \<and>
        (fst (write_events 0 os server c nt) \<longrightarrow> take 0 (drop m resp) = drop m resp)"
    by simp
  then show ?case by (rule exI)
next
  case (Suc k)
  from plain_step_ok [OF Suc.prems(1) Suc.prems(2), of os server]
  obtain rc c' nt' m' where all: "handle_write_event os server c nt = (rc, server, c', nt') \<and>
    m \<le> m' \<and> m' \<le> length resp \<and>
    wire sock (log nt') = wire sock (log nt) @ take (m' - m) (drop m resp) \<and>
    list_all accepts (sendq nt') \<and>
    length (sendq nt) \<le> length (sendq nt') + (m' - m) \<and>
    (sendq nt \<noteq> [] \<longrightarrow> m < m') \<and>
    (if m' = length resp then rc < 0 else rc = 0 \<and> sending_plain sock resp m' c')"
    by (elim exE)
  then have h: "handle_write_event os server c nt = (rc, server, c', nt')"
    and m': "m \<le> m'" "m' \<le> length resp"
    and w: "wire sock (log nt') = wire sock (log nt) @ take (m' - m) (drop m resp)"
    and q': "list_all accepts (sendq nt')"
    and fin: "if m' = length resp then rc < 0 else rc = 0 \<and> sending_plain sock resp m' c'"
    by blast+
  show ?case
  proof (cases "m' = length resp")
    case True
    then have "rc < 0" using fin by simp
    then have e: "write_events (Suc k) os server c nt = (True, c', nt')" using h by simp
    have "take (m' - m) (drop m resp) = drop m resp" using True by simp
    then have "wire sock (log (snd (snd (True, c', nt')))) =
          wire sock (log nt) @ take (m' - m) (drop m resp) \<and>
          (fst (True, c', nt') \<longrightarrow> take (m' - m) (drop m resp) = drop m resp)"
      using w by simp
    then show ?thesis unfolding e by (rule exI)
  next
    case False
    then have rc: "rc = 0" and s': "sending_plain sock resp m' c'" using fin by simp_all
    from Suc.IH [OF s' q']
    obtain j where w2: "wire sock (log (snd (snd (write_events k os server c' nt')))) =
          wire sock (log nt') @ take j (drop m' resp)"
      and f2: "fst (write_events k os server c' nt') \<longrightarrow> take j (drop m' resp) = drop m' resp"
      by blast
    have t: "take (m' - m) (drop m resp) @ take j (drop m' resp) =
          take (m' - m + j) (drop m resp)"
      using m'(1) by (simp only: take_add drop_drop) simp
    have e: "write_events (Suc k) os server c nt = write_events k os server c' nt'"
      using h rc by simp
    have a: "wire sock (log (snd (snd (write_events k os server c' nt')))) =
          wire sock (log nt) @ take (m' - m + j) (drop m resp)"
      unfolding w2 w t [symmetric] by (simp only: append_assoc)
    have b: "fst (write_events k os server c' nt') \<longrightarrow>
          take (m' - m + j) (drop m resp) = drop m resp"
    proof
      assume "fst (write_events k os server c' nt')"
      then have "take j (drop m' resp) = drop m' resp" using f2 by simp
      then have "take (m' - m + j) (drop m resp) =
          take (m' - m) (drop m resp) @ drop m' resp" using t by simp
      also have "drop m' resp = drop (m' - m) (drop m resp)"
        using m'(1) by (simp only: drop_drop) simp
      finally show "take (m' - m + j) (drop m resp) = drop m resp"
        by (simp only: append_take_drop_id)
    qed
    from a b show ?thesis unfolding e by (intro exI [of _ "m' - m + j"] conjI)
  qed
qed

lemma plain_events_complete:
  "sending_plain sock resp m c \<Longrightarrow> list_all accepts (sendq nt) \<Longrightarrow>
     length resp - m \<le> length (sendq nt) \<Longrightarrow> length resp - m \<le> k \<Longrightarrow>
     \<exists>c' nt'. write_events k os server c nt = (True, c', nt') \<and>
        wire sock (log nt') = wire sock (log nt) @ drop m resp"
proof (induction k arbitrary: m c nt)
  case 0
  then show ?case by (simp add: sending_plain_def)
next
  case (Suc k)
  have lt: "m < length resp" using Suc.prems(1) by (simp add: sending_plain_def)
  then have ne: "sendq nt \<noteq> []" using Suc.prems(3) by auto
  from plain_step_ok [OF Suc.prems(1) Suc.prems(2), of os server]
  obtain rc c' nt' m' where all: "handle_write_event os server c nt = (rc, server, c', nt') \<and>
    m \<le> m' \<and> m' \<le> length resp \<and>
    wire sock (log nt') = wire sock (log nt) @ take (m' - m) (drop m resp) \<and>
    list_all accepts (sendq nt') \<and>
    length (sendq nt) \<le> length (sendq nt') + (m' - m) \<and>
    (sendq nt \<noteq> [] \<longrightarrow> m < m') \<and>
    (if m' = length resp then rc < 0 else rc = 0 \<and> sending_plain sock resp m' c')"
    by (elim exE)
  then have h: "handle_write_event os server c nt = (rc, server, c', nt')"
    and m': "m \<le> m'" "m' \<le> length resp"
    and w: "wire sock (log nt') = wire sock (log nt) @ take (m' - m) (drop m resp)"
    and q': "list_all accepts (sendq nt')"
    and ln: "length (sendq nt) \<le> length (sendq nt') + (m' - m)"
    and pr: "sendq nt \<noteq> [] \<longrightarrow> m < m'"
    and fin: "if m' = length resp then rc < 0 else rc = 0 \<and> sending_plain sock resp m' c'"
    by blast+
  show ?case
  proof (cases "m' = length resp")
    case True
    then have "rc < 0" using fin by simp
    then have "write_events (Suc k) os server c nt = (True, c', nt')" using h by simp
    moreover have "take (m' - m) (drop m resp) = drop m resp" using True by simp
    ultimately show ?thesis using w by simp
  next
    case False
    then have rc: "rc = 0" and s': "sending_plain sock resp m' c'" using fin by simp_all
    have a: "length resp - m' \<le> length (sendq nt')"
      using ln Suc.prems(3) m' by linarith
    have b: "length resp - m' \<le> k"
      using pr ne Suc.prems(4) by linarith
    from Suc.IH [OF s' q' a b]
    obtain c'' nt'' where r: "write_events k os server c' nt' = (True, c'', nt'')"
      and w2: "wire sock (log nt'') = wire sock (log nt') @ drop m' resp"
      by blast
    have "take (m' - m) (drop m resp) @ drop m' resp = drop m resp"
    proof -
      have "drop m' resp = drop (m' - m) (drop m resp)"
        using m'(1) by (simp only: drop_drop) simp
      then show ?thesis by (simp only: append_take_drop_id)
    qed
    then have "wire sock (log nt'') = wire sock (log nt) @ drop m resp"
      using w w2 by simp
    moreover have "write_events (Suc k) os server c nt = (True, c'', nt'')"
      using h rc r by simp
    ultimately show ?thesis by blast
  qed
qed

lemma handle_write_event_server:
  "fst (snd (handle_write_event os s c nt)) = s"
  by (simp add: handle_write_event_def split_beta)

lemma handle_write_event_any_server:
  "handle_write_event os t c nt =
     (fst (handle_write_event os s c nt), t, snd (snd (handle_write_event os s c nt)))"
  by (simp add: handle_write_event_def split_beta)

lemma write_events_any_server:
  "write_events k os t c nt = write_events k os s c nt"
proof (induction k arbitrary: c nt)
  case 0
  then show ?case by simp
next
  case (Suc k)
  obtain rc s1 c1 n1 where h: "handle_write_event os s c nt = (rc, s1, c1, n1)"
    using prod_cases4 by blast
  have s1: "s1 = s" using handle_write_event_server [of os s c nt] h by simp
  have ht: "handle_write_event os t c nt = (rc, t, c1, n1)"
    using handle_write_event_any_server [of os t c nt s] h by simp
  show ?case using h ht s1 Suc.IH by simp
qed

lemma closed_stops:
  "fd (connections (fst sn) ! ci) < 0 \<Longrightarrow> client_events k os flt ci sn = sn"
  by (cases k) simp_all

lemma wire_closes: "list_all is_close cl \<Longrightarrow> wire sock (lg @ cl) = wire sock lg"
proof (induction cl)
  case Nil
  then show ?case by simp
next
  case (Cons e cl)
  then show ?case by (cases e) (simp_all add: wire_append)
qed

lemma client_events_write:
  "ci < length (connections server) \<Longrightarrow> connections server ! ci = c \<Longrightarrow> 0 \<le> fd c \<Longrightarrow>
   client_events k os EVFILT_WRITE ci (server, nt) =
     (case write_events k os server c nt of
        (closed, c', nt') \<Rightarrow>
          if closed
          then close_connection (server\<lparr>connections := (connections server)[ci := c']\<rparr>) ci nt'
          else (server\<lparr>connections := (connections server)[ci := c']\<rparr>, nt'))"
proof (induction k arbitrary: server c nt)
  case 0
  have "(connections server)[ci := connections server ! ci] = connections server"
    by (rule list_update_id)
  then have "server\<lparr>connections := (connections server)[ci := connections server ! ci]\<rparr> =
      server" by simp
  then show ?case using 0 by simp
next
  case (Suc k)
  note ci = Suc.prems(1) and c = Suc.prems(2) and fd = Suc.prems(3)
  obtain rc s1 c1 n1 where h: "handle_write_event os server c nt = (rc, s1, c1, n1)"
    using prod_cases4 by blast
  have s1: "s1 = server" using handle_write_event_server [of os server c nt] h by simp
  have fd1: "fd c1 = fd c" using handle_write_event_trace [OF h] by blast
  define s2 where "s2 = server\<lparr>connections := (connections server)[ci := c1]\<rparr>"
  have s2: "ci < length (connections s2)" "connections s2 ! ci = c1" "0 \<le> fd c1"
    using ci fd fd1 by (simp_all add: s2_def)
  have ce: "client_event os EVFILT_WRITE ci (server, nt) =
      (if rc < 0 then close_connection s2 ci n1 else (s2, n1))"
    using h s1 c by (simp add: client_event_def Let_def s2_def)
  have open_now: "\<not> fd (connections (fst (server, nt)) ! ci) < 0" using c fd by simp
  have step: "client_events (Suc k) os EVFILT_WRITE ci (server, nt) =
      client_events k os EVFILT_WRITE ci (if rc < 0 then close_connection s2 ci n1 else (s2, n1))"
    using open_now ce by simp
  show ?case
  proof (cases "rc < 0")
    case True
    have f2: "0 \<le> fd (connections s2 ! ci)" using s2 by simp
    from close_connection_log [OF s2(1) f2, of n1]
    have "fd (connections (fst (close_connection s2 ci n1)) ! ci) < 0" by auto
    then have "client_events k os EVFILT_WRITE ci (close_connection s2 ci n1) =
        close_connection s2 ci n1" by (rule closed_stops)
    then show ?thesis using step True h by (simp add: s2_def)
  next
    case False
    have e: "\<And>c'. s2\<lparr>connections := (connections s2)[ci := c']\<rparr> =
        server\<lparr>connections := (connections server)[ci := c']\<rparr>"
      by (simp add: s2_def)
    have "client_events k os EVFILT_WRITE ci (s2, n1) =
     (case write_events k os server c1 n1 of
        (closed, c', nt') \<Rightarrow>
          if closed
          then close_connection (server\<lparr>connections := (connections server)[ci := c']\<rparr>) ci nt'
          else (server\<lparr>connections := (connections server)[ci := c']\<rparr>, nt'))"
    proof -
      obtain cl c' nt' where we: "write_events k os server c1 n1 = (cl, c', nt')"
        using prod_cases3 by blast
      have "write_events k os s2 c1 n1 = (cl, c', nt')"
        using we write_events_any_server [of k os s2 c1 n1 server] by simp
      then show ?thesis using Suc.IH [OF s2, of n1] we by (simp add: e)
    qed
    then show ?thesis using step False h s1 by simp
  qed
qed

lemma write_events_fd:
  "fd (fst (snd (write_events k os s c nt))) = fd c"
proof (induction k arbitrary: c nt)
  case 0
  then show ?case by simp
next
  case (Suc k)
  obtain rc s1 c1 n1 where h: "handle_write_event os s c nt = (rc, s1, c1, n1)"
    using prod_cases4 by blast
  have s1: "s1 = s" using handle_write_event_server [of os s c nt] h by simp
  have fd1: "fd c1 = fd c" using handle_write_event_trace [OF h] by blast
  show ?case using h s1 fd1 Suc.IH [of c1 n1] by simp
qed

lemma close_connection_wire:
  "wire sock (log (snd (close_connection s ci nt))) = wire sock (log nt)"
  by (simp add: close_connection_def free_connection_def sys_close_def wire_append Let_def)

lemma close_connection_free_list:
  "free_list (fst (close_connection s ci nt)) = Some ci"
  unfolding close_connection_def by (subst free_connection_eq) simp

lemma plain_response_sent:
  assumes ci: "ci < length (connections server)" and c: "connections server ! ci = c"
    and s: "sending_plain sock resp 0 c" and sock: "0 \<le> sock"
    and q: "list_all accepts (sendq nt)"
  shows "(\<exists>j. wire sock (log (snd (client_events k os EVFILT_WRITE ci (server, nt)))) =
               wire sock (log nt) @ take j resp) \<and>
         (fd (connections (fst (client_events k os EVFILT_WRITE ci (server, nt))) ! ci) < 0 \<longrightarrow>
            wire sock (log (snd (client_events k os EVFILT_WRITE ci (server, nt)))) =
              wire sock (log nt) @ resp) \<and>
         (length resp \<le> length (sendq nt) \<and> length resp \<le> k \<longrightarrow>
            fd (connections (fst (client_events k os EVFILT_WRITE ci (server, nt))) ! ci) = -1 \<and>
            free_list (fst (client_events k os EVFILT_WRITE ci (server, nt))) = Some ci \<and>
            wire sock (log (snd (client_events k os EVFILT_WRITE ci (server, nt)))) =
              wire sock (log nt) @ resp)"
proof -
  have fdc: "fd c = sock" using s by (simp add: sending_plain_def)
  obtain cl c' nt' where we: "write_events k os server c nt = (cl, c', nt')"
    using prod_cases3 by blast
  have fd': "fd c' = sock" using write_events_fd [of k os server c nt] we fdc by simp
  define S where "S = server\<lparr>connections := (connections server)[ci := c']\<rparr>"
  have S: "ci < length (connections S)" "0 \<le> fd (connections S ! ci)"
    using ci fd' sock by (simp_all add: S_def)
  have R: "client_events k os EVFILT_WRITE ci (server, nt) =
      (if cl then close_connection S ci nt' else (S, nt'))"
    using client_events_write [OF ci c, of k os nt] fdc sock we by (simp add: S_def)
  have w: "wire sock (log (snd (client_events k os EVFILT_WRITE ci (server, nt)))) =
      wire sock (log nt')"
    unfolding R by (simp add: close_connection_wire)
  from plain_events_prefix [OF s q, of k os server] we
  obtain j where j: "wire sock (log nt') = wire sock (log nt) @ take j resp"
    "cl \<longrightarrow> take j resp = resp" by auto
  have 1: "\<exists>j. wire sock (log (snd (client_events k os EVFILT_WRITE ci (server, nt)))) =
               wire sock (log nt) @ take j resp"
    unfolding w using j(1) by (rule exI)
  have 2: "fd (connections (fst (client_events k os EVFILT_WRITE ci (server, nt))) ! ci) < 0 \<longrightarrow>
            wire sock (log (snd (client_events k os EVFILT_WRITE ci (server, nt)))) =
              wire sock (log nt) @ resp"
  proof
    assume a: "fd (connections (fst (client_events k os EVFILT_WRITE ci (server, nt))) ! ci) < 0"
    have cl using a S(2) unfolding R by (cases cl) simp_all
    then show "wire sock (log (snd (client_events k os EVFILT_WRITE ci (server, nt)))) =
              wire sock (log nt) @ resp"
      unfolding w using j by simp
  qed
  have 3: "length resp \<le> length (sendq nt) \<and> length resp \<le> k \<longrightarrow>
            fd (connections (fst (client_events k os EVFILT_WRITE ci (server, nt))) ! ci) = -1 \<and>
            free_list (fst (client_events k os EVFILT_WRITE ci (server, nt))) = Some ci \<and>
            wire sock (log (snd (client_events k os EVFILT_WRITE ci (server, nt)))) =
              wire sock (log nt) @ resp"
  proof
    assume a: "length resp \<le> length (sendq nt) \<and> length resp \<le> k"
    from plain_events_complete [OF s q, of k os server] a we
    have cl: cl and w': "wire sock (log nt') = wire sock (log nt) @ resp" by auto
    from close_connection_log [OF S, of nt']
    have f: "fd (connections (fst (close_connection S ci nt')) ! ci) = -1" by blast
    show "fd (connections (fst (client_events k os EVFILT_WRITE ci (server, nt))) ! ci) = -1 \<and>
            free_list (fst (client_events k os EVFILT_WRITE ci (server, nt))) = Some ci \<and>
            wire sock (log (snd (client_events k os EVFILT_WRITE ci (server, nt)))) =
              wire sock (log nt) @ resp"
      unfolding w unfolding R using cl f w' by (simp add: close_connection_free_list)
  qed
  from 1 2 3 show ?thesis by blast
qed

text \<open>
  Claim C2, as amended. In the kqueue server, when a read brings the request buffer to
  its capacity and the buffer holds no blank line, \<open>handle_read_event\<close> prepares the
  response 413 and enters the state of sending the header with no file
  (\<open>file_fd < 0\<close>), provided the response buffer exists or \<open>malloc\<close> gives it. The
  write events that follow send it: whatever share of the bytes each \<open>send\<close> takes
  (at least one), the bytes on the socket are an initial part of the response, the
  connection is not closed before the whole response is on the socket, and once the
  events and the sends are as many as its bytes the connection is closed and its record
  is back on the free list with exactly the response sent; a single \<open>send\<close> that
  takes it all ends in \<open>close_connection\<close> at once. The select server has no such
  response: with its buffer at capacity, \<open>handle_client_read\<close> leaves the client as it
  is or closes it, and sends nothing.
\<close>

theorem request_too_large:
  assumes rd: "state conn = STATE_READING_REQUEST" and nf: "file_fd conn < 0"
    and rq: "recvq nt = Recvd d # rq"
    and got: "got = take (request_capacity conn - request_size conn - 1) d" "got \<noteq> []"
    and buf: "buf = take (request_size conn) (buf_bytes (request_buffer conn)) @ got"
    and noterm: "strstr (c_str buf) CRLFCRLF = None"
    and full: "request_capacity conn - 1 \<le> request_size conn + length got"
    and m: "os_malloc_ok os \<or> response_buffer conn \<noteq> None"
    and c': "conn' = conn\<lparr>request_buffer := Some buf,
                 request_size := request_size conn + length got,
                 response_buffer := Some error_413, response_size := length error_413,
                 response_sent := 0, state := STATE_SENDING_HEADER\<rparr>"
  shows "handle_read_event os server conn nt =
      (0, server, conn',
       nt\<lparr>recvq := rq, log := log nt @ [IoRecv (fd conn) (int (length got)) False]\<rparr>) \<and>
    file_fd conn' < 0 \<and>
    (ci < length (connections server') \<and> connections server' ! ci = conn' \<and>
     sendq nt' = Sent k # sq \<and> length error_413 \<le> k \<longrightarrow>
       client_event os EVFILT_WRITE ci (server', nt') =
         close_connection
           (server'\<lparr>connections :=
               (connections server')[ci := conn'\<lparr>response_sent := length error_413\<rparr>]\<rparr>)
           ci (nt'\<lparr>sendq := sq,
                   log := log nt' @
                     [IoSend (fd conn') error_413 (int (length error_413)) False]\<rparr>)) \<and>
    (ci < length (connections server') \<and> connections server' ! ci = conn' \<and>
     0 \<le> fd conn' \<and> list_all accepts (sendq nt') \<longrightarrow>
       (\<exists>j. wire (fd conn') (log (snd (client_events ev os EVFILT_WRITE ci (server', nt')))) =
             wire (fd conn') (log nt') @ take j error_413) \<and>
       (fd (connections (fst (client_events ev os EVFILT_WRITE ci (server', nt'))) ! ci) < 0 \<longrightarrow>
          wire (fd conn') (log (snd (client_events ev os EVFILT_WRITE ci (server', nt')))) =
            wire (fd conn') (log nt') @ error_413) \<and>
       (length error_413 \<le> length (sendq nt') \<and> length error_413 \<le> ev \<longrightarrow>
          fd (connections (fst (client_events ev os EVFILT_WRITE ci (server', nt'))) ! ci) = -1 \<and>
          free_list (fst (client_events ev os EVFILT_WRITE ci (server', nt'))) = Some ci \<and>
          wire (fd conn') (log (snd (client_events ev os EVFILT_WRITE ci (server', nt')))) =
            wire (fd conn') (log nt') @ error_413)) \<and>
    (a_request_size client = aio_kRequestBufferSize - 1 \<and>
     handle_client_read os aserver client ant = (aserver', client', ant') \<longrightarrow>
       (client' = client \<or> client' = fst (close_client client ant)) \<and>
       wire (a_fd client) (log ant') = wire (a_fd client) (log ant))"
proof -
  have a: "handle_read_event os server conn nt =
      (0, server, conn',
       nt\<lparr>recvq := rq, log := log nt @ [IoRecv (fd conn) (int (length got)) False]\<rparr>)"
    unfolding c' by (rule read_event_413 [OF rd rq got buf noterm full m])
  have b: "file_fd conn' < 0" using nf by (simp add: c')
  have c: "ci < length (connections server') \<and> connections server' ! ci = conn' \<and>
     sendq nt' = Sent k # sq \<and> length error_413 \<le> k \<longrightarrow>
       client_event os EVFILT_WRITE ci (server', nt') =
         close_connection
           (server'\<lparr>connections :=
               (connections server')[ci := conn'\<lparr>response_sent := length error_413\<rparr>]\<rparr>)
           ci (nt'\<lparr>sendq := sq,
                   log := log nt' @
                     [IoSend (fd conn') error_413 (int (length error_413)) False]\<rparr>)"
  proof
    assume h: "ci < length (connections server') \<and> connections server' ! ci = conn' \<and>
     sendq nt' = Sent k # sq \<and> length error_413 \<le> k"
    have e: "error_413 \<noteq> []" using error_413_len by auto
    show "client_event os EVFILT_WRITE ci (server', nt') =
         close_connection
           (server'\<lparr>connections :=
               (connections server')[ci := conn'\<lparr>response_sent := length error_413\<rparr>]\<rparr>)
           ci (nt'\<lparr>sendq := sq,
                   log := log nt' @
                     [IoSend (fd conn') error_413 (int (length error_413)) False]\<rparr>)"
      by (rule write_event_header_only [where resp = error_413 and k = k])
         (use h b e in \<open>simp_all add: c'\<close>)
  qed
  have d: "ci < length (connections server') \<and> connections server' ! ci = conn' \<and>
     0 \<le> fd conn' \<and> list_all accepts (sendq nt') \<longrightarrow>
       (\<exists>j. wire (fd conn') (log (snd (client_events ev os EVFILT_WRITE ci (server', nt')))) =
             wire (fd conn') (log nt') @ take j error_413) \<and>
       (fd (connections (fst (client_events ev os EVFILT_WRITE ci (server', nt'))) ! ci) < 0 \<longrightarrow>
          wire (fd conn') (log (snd (client_events ev os EVFILT_WRITE ci (server', nt')))) =
            wire (fd conn') (log nt') @ error_413) \<and>
       (length error_413 \<le> length (sendq nt') \<and> length error_413 \<le> ev \<longrightarrow>
          fd (connections (fst (client_events ev os EVFILT_WRITE ci (server', nt'))) ! ci) = -1 \<and>
          free_list (fst (client_events ev os EVFILT_WRITE ci (server', nt'))) = Some ci \<and>
          wire (fd conn') (log (snd (client_events ev os EVFILT_WRITE ci (server', nt')))) =
            wire (fd conn') (log nt') @ error_413)"
  proof
    assume h: "ci < length (connections server') \<and> connections server' ! ci = conn' \<and>
     0 \<le> fd conn' \<and> list_all accepts (sendq nt')"
    have sp: "sending_plain (fd conn') error_413 0 conn'"
      using b error_413_len by (simp add: sending_plain_def c')
    show "(\<exists>j. wire (fd conn') (log (snd (client_events ev os EVFILT_WRITE ci (server', nt')))) =
             wire (fd conn') (log nt') @ take j error_413) \<and>
       (fd (connections (fst (client_events ev os EVFILT_WRITE ci (server', nt'))) ! ci) < 0 \<longrightarrow>
          wire (fd conn') (log (snd (client_events ev os EVFILT_WRITE ci (server', nt')))) =
            wire (fd conn') (log nt') @ error_413) \<and>
       (length error_413 \<le> length (sendq nt') \<and> length error_413 \<le> ev \<longrightarrow>
          fd (connections (fst (client_events ev os EVFILT_WRITE ci (server', nt'))) ! ci) = -1 \<and>
          free_list (fst (client_events ev os EVFILT_WRITE ci (server', nt'))) = Some ci \<and>
          wire (fd conn') (log (snd (client_events ev os EVFILT_WRITE ci (server', nt')))) =
            wire (fd conn') (log nt') @ error_413)"
      by (rule plain_response_sent [OF _ _ sp]) (use h in simp_all)
  qed
  from a b c d aio_read_at_capacity [of client os aserver ant aserver' client' ant']
  show ?thesis by blast
qed

text \<open>
  4095 bytes without a blank line on the socket 5: the response 413 is prepared, and it
  is sent and the connection closed both when one \<open>send\<close> takes the 97 bytes and when
  97 sends take one byte each.
\<close>

theorem request_too_large_witness:
  "fst ex_flood =
     (fst ex_accepted)\<lparr>connections := (connections (fst ex_accepted))
       [0 := (connections (fst ex_accepted) ! 0)
          \<lparr>request_buffer := Some (replicate 4095 CHR ''a''), request_size := 4095,
           response_buffer := Some error_413, response_size := length error_413,
           response_sent := 0, state := STATE_SENDING_HEADER\<rparr>]\<rparr> \<and>
   file_fd (connections (fst ex_flood) ! 0) = -1 \<and>
   fd (connections (fst ex_flood_sent) ! 0) = -1 \<and>
   free_list (fst ex_flood_sent) = Some 0 \<and>
   wire 5 (log (snd ex_flood_sent)) = error_413 \<and>
   log (snd ex_flood_sent) =
     [IoRecv 5 4095 False, IoSend 5 error_413 (int (length error_413)) False, IoClose 5] \<and>
   fd (connections (fst ex_flood_trickle) ! 0) = -1 \<and>
   free_list (fst ex_flood_trickle) = Some 0 \<and>
   wire 5 (log (snd ex_flood_trickle)) = error_413"
proof -
  define conn where "conn = connections (fst ex_accepted) ! 0"
  define conn' where "conn' = conn\<lparr>request_buffer := Some (replicate 4095 CHR ''a''),
                 request_size := request_size conn + length (replicate 4095 CHR ''a''),
                 response_buffer := Some error_413, response_size := length error_413,
                 response_sent := 0, state := STATE_SENDING_HEADER\<rparr>"
  define nt where "nt = (snd ex_accepted)\<lparr>recvq := [Recvd (replicate 4095 CHR ''a'')], sendq := []\<rparr>"
  have conn: "conn = zero_connection\<lparr>fd := 5, file_fd := -1, request_buffer := Some [],
           request_capacity := kRequestBufferSize\<rparr>"
    by (simp add: conn_def ex_flood_conn0)
  have nts: "strstr (c_str (replicate 4095 CHR ''a'')) CRLFCRLF = None"
    by (simp add: c_str_replicate strstr_replicate)
  note t = request_too_large [of conn nt "replicate 4095 CHR ''a''" "[]"
      "replicate 4095 CHR ''a''" "replicate 4095 CHR ''a''" ex_os conn' "fst ex_accepted"
      0 "fst ex_flood" "(snd ex_flood)\<lparr>recvq := [], sendq := [Sent 512]\<rparr>" 512 "[]"]
  have t': "handle_read_event ex_os (fst ex_accepted) conn nt =
      (0, fst ex_accepted, conn',
       nt\<lparr>recvq := [], log := log nt @ [IoRecv (fd conn) (int (length (replicate 4095 CHR ''a''))) False]\<rparr>) \<and>
    file_fd conn' < 0 \<and>
    (0 < length (connections (fst ex_flood)) \<and> connections (fst ex_flood) ! 0 = conn' \<and>
     sendq ((snd ex_flood)\<lparr>recvq := [], sendq := [Sent 512]\<rparr>) = Sent 512 # [] \<and> length error_413 \<le> 512 \<longrightarrow>
       client_event ex_os EVFILT_WRITE 0 (fst ex_flood, (snd ex_flood)\<lparr>recvq := [], sendq := [Sent 512]\<rparr>) =
         close_connection
           ((fst ex_flood)\<lparr>connections :=
               (connections (fst ex_flood))[0 := conn'\<lparr>response_sent := length error_413\<rparr>]\<rparr>)
           0 ((snd ex_flood)\<lparr>recvq := [], sendq := [Sent 512]\<rparr>\<lparr>sendq := [],
                   log := log ((snd ex_flood)\<lparr>recvq := [], sendq := [Sent 512]\<rparr>) @
                     [IoSend (fd conn') error_413 (int (length error_413)) False]\<rparr>))"
    using t
    by (simp add: conn nt_def conn'_def zero_connection_def kRequestBufferSize_def
        buf_bytes_Some nts ex_os_def)
  have fl: "ex_flood = (((fst ex_accepted)\<lparr>connections := (connections (fst ex_accepted))[0 := conn']\<rparr>),
      nt\<lparr>recvq := [], log := log nt @ [IoRecv 5 4095 False]\<rparr>)"
    using t' by (simp add: ex_flood_def client_event_def conn_def [symmetric] nt_def [symmetric] conn)
  have c0: "connections (fst ex_flood) ! 0 = conn'" by (simp add: fl ex_accepted_eq)
  have sent: "ex_flood_sent = close_connection
           ((fst ex_flood)\<lparr>connections :=
               (connections (fst ex_flood))[0 := conn'\<lparr>response_sent := length error_413\<rparr>]\<rparr>)
           0 ((snd ex_flood)\<lparr>recvq := [], sendq := [],
                   log := log (snd ex_flood) @
                     [IoSend (fd conn') error_413 (int (length error_413)) False]\<rparr>)"
    using t' c0 by (simp add: ex_flood_sent_def error_413_len fl ex_accepted_eq)
  have pre: "state conn = STATE_READING_REQUEST" "file_fd conn < 0"
    "recvq nt = Recvd (replicate 4095 CHR ''a'') # []"
    "replicate 4095 CHR ''a'' =
       take (request_capacity conn - request_size conn - 1) (replicate 4095 CHR ''a'')"
    "replicate 4095 CHR ''a'' \<noteq> []"
    "replicate 4095 CHR ''a'' =
       take (request_size conn) (buf_bytes (request_buffer conn)) @ replicate 4095 CHR ''a''"
    "request_capacity conn - 1 \<le> request_size conn + length (replicate 4095 CHR ''a'')"
    "os_malloc_ok ex_os \<or> response_buffer conn \<noteq> None"
    by (simp_all add: conn nt_def zero_connection_def kRequestBufferSize_def ex_os_def)
  note t2 = request_too_large [OF pre(1-6) nts pre(7,8) conn'_def,
      where ci = 0 and server' = "fst ex_flood" and ev = 97
        and nt' = "(snd ex_flood)\<lparr>recvq := [], sendq := replicate 97 (Sent 1)\<rparr>"]
  note d = conjunct1 [OF conjunct2 [OF conjunct2 [OF conjunct2 [OF t2]]]]
  have hd: "0 < length (connections (fst ex_flood)) \<and> connections (fst ex_flood) ! 0 = conn' \<and>
     0 \<le> fd conn' \<and>
     list_all accepts (sendq ((snd ex_flood)\<lparr>recvq := [], sendq := replicate 97 (Sent 1)\<rparr>))"
    using c0 by (simp add: list_all_length fl ex_accepted_eq conn'_def conn)
  have w0: "fd conn' = 5" "wire 5 (log (snd ex_flood)) = []"
    by (simp_all add: conn'_def conn fl nt_def ex_accepted_eq ex_net_def)
  have trickle: "fd (connections (fst ex_flood_trickle) ! 0) = -1 \<and>
      free_list (fst ex_flood_trickle) = Some 0 \<and>
      wire 5 (log (snd ex_flood_trickle)) = error_413"
    using mp [OF d hd] w0
    by (simp add: ex_flood_trickle_def error_413_len)
  have rest: "fst ex_flood =
     (fst ex_accepted)\<lparr>connections := (connections (fst ex_accepted))
       [0 := (connections (fst ex_accepted) ! 0)
          \<lparr>request_buffer := Some (replicate 4095 CHR ''a''), request_size := 4095,
           response_buffer := Some error_413, response_size := length error_413,
           response_sent := 0, state := STATE_SENDING_HEADER\<rparr>]\<rparr> \<and>
   file_fd (connections (fst ex_flood) ! 0) = -1 \<and>
   fd (connections (fst ex_flood_sent) ! 0) = -1 \<and>
   free_list (fst ex_flood_sent) = Some 0 \<and>
   wire 5 (log (snd ex_flood_sent)) = error_413 \<and>
   log (snd ex_flood_sent) =
     [IoRecv 5 4095 False, IoSend 5 error_413 (int (length error_413)) False, IoClose 5]"
    apply (simp add: sent)
    apply (simp add: fl conn'_def conn ex_accepted_eq nt_def ex_net_def close_connection_def
        free_connection_def sys_close_def zero_connection_def Let_def error_413_len)
    done
  from rest trickle show ?thesis by blast
qed

subsection \<open>A path too long for its field\<close>

lemma get_line_facts:
  assumes p: "CHR 0x00 \<notin> set p" and v: "CHR 0x00 \<notin> set v"
    and buf: "buf = ''GET '' @ p @ '' '' @ v @ CRLFCRLF"
  shows "c_str buf = buf" "strstr (c_str buf) CRLFCRLF \<noteq> None"
proof -
  have "CHR 0x00 \<notin> set buf" using p v by (simp add: buf CRLFCRLF_def)
  then show c: "c_str buf = buf" by (rule c_str_id)
  obtain k where "strstr ((''GET '' @ p @ '' '' @ v) @ CRLFCRLF) CRLFCRLF = Some k"
    using strstr_terminated by blast
  then show "strstr (c_str buf) CRLFCRLF \<noteq> None" unfolding c by (simp add: buf)
qed













subsection \<open>The response to the request for \<open>/\<close>\<close>

lemma build_200_props:
  "http_build_200 cap n ct = Some h \<Longrightarrow> h \<noteq> [] \<and> length h < cap"
  by (auto simp: http_build_200_def Let_def split: if_splits)

lemma index_request_facts:
  assumes "req = ''GET / HTTP/1.1'' @ CRLFCRLF \<or> req = ''GET /index.html HTTP/1.1'' @ CRLFCRLF"
  shows "http_parse_request req (length req) =
           (1, zero_req\<lparr>complete := 1, req_method := ''GET'', path := ''/index.html''\<rparr>)"
    and "strstr (c_str req) CRLFCRLF \<noteq> None"
    and "0 < length req" and "length req < 4095"
proof -
  have l1: "length (''GET / HTTP/1.1'' @ CRLFCRLF) = 18" by (simp add: CRLFCRLF_def)
  have l2: "length (''GET /index.html HTTP/1.1'' @ CRLFCRLF) = 28" by (simp add: CRLFCRLF_def)
  have l: "length req = 18 \<or> length req = 28" using assms l1 l2 by auto
  then show "0 < length req" "length req < 4095" by auto
  from assms show "http_parse_request req (length req) =
           (1, zero_req\<lparr>complete := 1, req_method := ''GET'', path := ''/index.html''\<rparr>)"
  proof
    assume e: "req = ''GET / HTTP/1.1'' @ CRLFCRLF"
    show ?thesis unfolding e l1 by (rule parse_root)
  next
    assume e: "req = ''GET /index.html HTTP/1.1'' @ CRLFCRLF"
    show ?thesis unfolding e l2 by (rule parse_index)
  qed
  have a: "strstr (c_str (''GET / HTTP/1.1'' @ CRLFCRLF)) CRLFCRLF \<noteq> None"
    using get_line_facts(2) [of "''/''" "''HTTP/1.1''" "''GET / HTTP/1.1'' @ CRLFCRLF"] by simp
  have b: "strstr (c_str (''GET /index.html HTTP/1.1'' @ CRLFCRLF)) CRLFCRLF \<noteq> None"
    using get_line_facts(2) [of "''/index.html''" "''HTTP/1.1''"
        "''GET /index.html HTTP/1.1'' @ CRLFCRLF"] by simp
  show "strstr (c_str req) CRLFCRLF \<noteq> None" using assms a b by blast
qed

lemma read_event_200:
  assumes pr: "http_parse_request req (length req) = (1, r)" "path r = pth"
    and tm: "strstr (c_str req) CRLFCRLF \<noteq> None"
    and ln: "0 < length req" "length req < kRequestBufferSize"
    and rd: "state conn = STATE_READING_REQUEST"
    and cap: "request_capacity conn = kRequestBufferSize" "request_size conn = 0"
    and rq: "recvq nt = Recvd req # rq"
    and sj: "http_safe_join (os_realpath os) (os_path_max os) kPathBufferSize
               (doc_root server) pth = Some fp"
    and st: "os_stat os fp = Some st" "st_is_reg st"
    and op: "os_open os fp = f" "0 \<le> f"
    and fs: "os_fstat os f = Some st2" "st_size st2 = int (length data)"
    and hd: "http_build_200 kHeaderBufferSize (int (length data)) (http_guess_type fp) = Some hdr"
    and m: "os_malloc_ok os" "os_kevent_ok os"
  shows "handle_read_event os server conn nt =
      (0, server\<lparr>total_requests := total_requests server + 1\<rparr>,
       conn\<lparr>request_buffer := Some req, request_size := length req,
            file_fd := f, file_size := int (length data), file_offset := 0,
            response_buffer := Some hdr, response_size := length hdr,
            response_sent := 0, state := STATE_SENDING_HEADER\<rparr>,
       nt\<lparr>recvq := rq, log := log nt @ [IoRecv (fd conn) (int (length req)) False]\<rparr>)"
proof -
  define nt1 where "nt1 = nt\<lparr>recvq := rq,
      log := log nt @ [IoRecv (fd conn) (int (length req)) False]\<rparr>"
  define c1 where "c1 = conn\<lparr>request_buffer := Some req, request_size := length req\<rparr>"
  have tk: "take (request_capacity conn - request_size conn - 1) req = req"
    using cap ln by simp
  have rv: "sys_recv nt (fd conn) (request_capacity conn - request_size conn - 1) =
      ((int (length req), False, req), nt1)"
    using rq tk by (simp add: sys_recv_def Let_def nt1_def)
  have pf: "prepare_file_response os c1 fp nt1 =
      (0, c1\<lparr>file_fd := f, file_size := int (length data), file_offset := 0,
             response_buffer := Some hdr, response_size := length hdr,
             response_sent := 0, state := STATE_SENDING_HEADER\<rparr>, nt1)"
    using op fs hd m by (simp add: prepare_file_response_def Let_def)
  have p1: "process_request os server c1 nt1 =
      (server\<lparr>total_requests := total_requests server + 1\<rparr>,
       c1\<lparr>file_fd := f, file_size := int (length data), file_offset := 0,
             response_buffer := Some hdr, response_size := length hdr,
             response_sent := 0, state := STATE_SENDING_HEADER\<rparr>, nt1)"
    using pr sj st pf by (simp add: process_request_def c1_def buf_bytes_def)
  have "handle_read_event os server conn nt =
      (0, server\<lparr>total_requests := total_requests server + 1\<rparr>,
       c1\<lparr>file_fd := f, file_size := int (length data), file_offset := 0,
             response_buffer := Some hdr, response_size := length hdr,
             response_sent := 0, state := STATE_SENDING_HEADER\<rparr>, nt1)"
    using rd rv cap ln tm p1
    by (simp add: handle_read_event_def Let_def c1_def buf_bytes_Some)
  then show ?thesis by (simp add: c1_def nt1_def)
qed

lemma client_read_200:
  assumes pr: "http_parse_request req (length req) = (1, r)" "path r = pth"
    and tm: "strstr (c_str req) CRLFCRLF \<noteq> None"
    and ln: "0 < length req" "length req < aio_kRequestBufferSize"
    and cap: "a_request_size client = 0"
    and rq: "recvq nt = Recvd req # rq"
    and sj: "http_safe_join (os_realpath os) (os_path_max os) aio_kPathBufferSize
               (a_doc_root aserver) pth = Some fp"
    and st: "os_stat os fp = Some st" "st_is_reg st"
    and op: "os_open os fp = f" "0 \<le> f"
    and fs: "os_fstat os f = Some st2" "st_size st2 = int (length data)"
    and hd: "http_build_200 aio_kHeaderBufferSize (int (length data)) (http_guess_type fp) =
               Some hdr"
    and m: "os_malloc_ok os"
  shows "handle_client_read os aserver client nt =
      (aserver\<lparr>a_total_requests := a_total_requests aserver + 1\<rparr>,
       client\<lparr>a_request_buffer := req, a_request_size := length req,
              a_file_fd := f, a_file_size := int (length data), a_file_offset := 0,
              a_response_buffer := Some hdr, a_response_size := length hdr,
              a_response_sent := 0, a_state := AIO_STATE_SENDING_RESPONSE\<rparr>,
       nt\<lparr>recvq := rq, log := log nt @ [IoRecv (a_fd client) (int (length req)) False]\<rparr>)"
proof -
  define nt1 where "nt1 = nt\<lparr>recvq := rq,
      log := log nt @ [IoRecv (a_fd client) (int (length req)) False]\<rparr>"
  define c1 where "c1 = client\<lparr>a_request_buffer := req, a_request_size := length req\<rparr>"
  have tk: "take (aio_kRequestBufferSize - a_request_size client - 1) req = req"
    using cap ln by simp
  have rv: "sys_recv nt (a_fd client) (aio_kRequestBufferSize - a_request_size client - 1) =
      ((int (length req), False, req), nt1)"
    using rq tk by (simp add: sys_recv_def Let_def nt1_def)
  have p1: "process_http_request os aserver c1 nt1 =
      (c1\<lparr>a_file_fd := f, a_file_size := int (length data), a_file_offset := 0,
             a_response_buffer := Some hdr, a_response_size := length hdr,
             a_response_sent := 0, a_state := AIO_STATE_SENDING_RESPONSE\<rparr>, nt1)"
    using pr sj st op fs hd m
    by (simp add: process_http_request_def aio_prepare_file_response_def c1_def Let_def)
  have "handle_client_read os aserver client nt =
      (aserver\<lparr>a_total_requests := a_total_requests aserver + 1\<rparr>,
       c1\<lparr>a_file_fd := f, a_file_size := int (length data), a_file_offset := 0,
             a_response_buffer := Some hdr, a_response_size := length hdr,
             a_response_sent := 0, a_state := AIO_STATE_SENDING_RESPONSE\<rparr>, nt1)"
    using rv cap ln tm p1
    by (simp add: handle_client_read_def Let_def c1_def)
  then show ?thesis by (simp add: c1_def nt1_def)
qed

lemma file_response_sent:
  assumes fl: "\<forall>count off. 0 \<le> off \<longrightarrow>
                 os_pread os f count off = Some (take count (drop (nat off) data))"
    and ci: "ci < length (connections server)" and c: "connections server ! ci = c"
    and s: "sending sock f hdr data 0 c" and sock: "0 \<le> sock"
    and q: "list_all accepts (sendq nt)"
  shows "(\<exists>j. wire sock (log (snd (client_events k os EVFILT_WRITE ci (server, nt)))) =
               wire sock (log nt) @ take j (hdr @ data)) \<and>
         (length hdr + length data \<le> length (sendq nt) \<and> length hdr + length data \<le> k \<longrightarrow>
            fd (connections (fst (client_events k os EVFILT_WRITE ci (server, nt))) ! ci) = -1 \<and>
            wire sock (log (snd (client_events k os EVFILT_WRITE ci (server, nt)))) =
              wire sock (log nt) @ hdr @ data)"
proof -
  have fdc: "fd c = sock" using sending_state [OF s] by simp
  obtain cl c' nt' where we: "write_events k os server c nt = (cl, c', nt')"
    using prod_cases3 by blast
  have fd': "fd c' = sock" using write_events_fd [of k os server c nt] we fdc by simp
  define S where "S = server\<lparr>connections := (connections server)[ci := c']\<rparr>"
  have S: "ci < length (connections S)" "0 \<le> fd (connections S ! ci)"
    using ci fd' sock by (simp_all add: S_def)
  have R: "client_events k os EVFILT_WRITE ci (server, nt) =
      (if cl then close_connection S ci nt' else (S, nt'))"
    using client_events_write [OF ci c, of k os nt] fdc sock we by (simp add: S_def)
  have w: "wire sock (log (snd (client_events k os EVFILT_WRITE ci (server, nt)))) =
      wire sock (log nt')"
    unfolding R by (simp add: close_connection_wire)
  from write_events_prefix [OF fl s q, of k server] we
  obtain j where j: "wire sock (log nt') = wire sock (log nt) @ take j (hdr @ data)" by auto
  have 1: "\<exists>j. wire sock (log (snd (client_events k os EVFILT_WRITE ci (server, nt)))) =
               wire sock (log nt) @ take j (hdr @ data)"
    unfolding w using j by (rule exI)
  have 2: "length hdr + length data \<le> length (sendq nt) \<and> length hdr + length data \<le> k \<longrightarrow>
            fd (connections (fst (client_events k os EVFILT_WRITE ci (server, nt))) ! ci) = -1 \<and>
            wire sock (log (snd (client_events k os EVFILT_WRITE ci (server, nt)))) =
              wire sock (log nt) @ hdr @ data"
  proof
    assume a: "length hdr + length data \<le> length (sendq nt) \<and> length hdr + length data \<le> k"
    from write_events_complete [OF fl s q, of k server] a we
    have cl: cl and w': "wire sock (log nt') = wire sock (log nt) @ hdr @ data" by auto
    from close_connection_log [OF S, of nt']
    have f: "fd (connections (fst (close_connection S ci nt')) ! ci) = -1" by blast
    show "fd (connections (fst (client_events k os EVFILT_WRITE ci (server, nt))) ! ci) = -1 \<and>
            wire sock (log (snd (client_events k os EVFILT_WRITE ci (server, nt)))) =
              wire sock (log nt) @ hdr @ data"
      unfolding w unfolding R using cl f w' by simp
  qed
  from 1 2 show ?thesis by blast
qed

lemma prepare_file_response_net:
  "fst (prepare_file_response os c fp nt) = fst (prepare_file_response os c fp nt2) \<and>
   fst (snd (prepare_file_response os c fp nt)) = fst (snd (prepare_file_response os c fp nt2))"
  by (simp add: prepare_file_response_def Let_def split: option.splits)

lemma process_request_net:
  "fst (process_request os server c nt) = fst (process_request os server c nt2) \<and>
   fst (snd (process_request os server c nt)) = fst (snd (process_request os server c nt2))"
proof -
  have "\<And>fp. \<exists>r c' n n2. prepare_file_response os c fp nt = (r, c', n) \<and>
      prepare_file_response os c fp nt2 = (r, c', n2)"
  proof -
    fix fp
    obtain r c' n where 1: "prepare_file_response os c fp nt = (r, c', n)"
      using prod_cases3 by blast
    obtain r2 c2 n2 where 2: "prepare_file_response os c fp nt2 = (r2, c2, n2)"
      using prod_cases3 by blast
    from prepare_file_response_net [of os c fp nt nt2] 1 2 have "r2 = r" "c2 = c'" by simp_all
    with 1 2 show "\<exists>r c' n n2. prepare_file_response os c fp nt = (r, c', n) \<and>
      prepare_file_response os c fp nt2 = (r, c', n2)" by blast
  qed
  then have pf: "\<And>fp. \<exists>r c' n n2. prepare_file_response os c fp nt = (r, c', n) \<and>
      prepare_file_response os c fp nt2 = (r, c', n2)" .
  obtain rc rr where pr: "http_parse_request (buf_bytes (request_buffer c)) (request_size c) =
      (rc, rr)" by (cases "http_parse_request (buf_bytes (request_buffer c)) (request_size c)")
  show ?thesis
  proof (cases "rc \<le> 0")
    case True
    then show ?thesis using pr by (simp add: process_request_def)
  next
    case rcp: False
    show ?thesis
    proof (cases "http_safe_join (os_realpath os) (os_path_max os) kPathBufferSize
               (doc_root server) (path rr)")
      case None
      then show ?thesis using pr rcp by (simp add: process_request_def)
    next
      case (Some fp)
      note sj = Some
      show ?thesis
      proof (cases "os_stat os fp")
        case None
        then show ?thesis using pr rcp sj by (simp add: process_request_def)
      next
        case (Some st)
        show ?thesis
        proof (cases "st_is_reg st")
          case False
          then show ?thesis using pr rcp sj Some by (simp add: process_request_def)
        next
          case True
          from pf [of fp] obtain r c' n n2 where
            e: "prepare_file_response os c fp nt = (r, c', n)"
               "prepare_file_response os c fp nt2 = (r, c', n2)" by blast
          show ?thesis using pr rcp sj Some True e by (simp add: process_request_def)
        qed
      qed
    qed
  qed
qed

lemma close_client_net: "fst (close_client c nt) = fst (close_client c nt2)"
  by (simp add: close_client_def Let_def split: if_splits)

lemma aio_prepare_error_response_net:
  "fst (aio_prepare_error_response os c code nt) = fst (aio_prepare_error_response os c code nt2)"
  using close_client_net [of c nt nt2]
  by (simp add: aio_prepare_error_response_def split: option.splits)

lemma aio_prepare_file_response_net:
  "fst (aio_prepare_file_response os c fp nt) = fst (aio_prepare_file_response os c fp nt2)"
  using aio_prepare_error_response_net
  by (simp add: aio_prepare_file_response_def Let_def split: option.splits)

lemma process_http_request_net:
  "fst (process_http_request os server c nt) = fst (process_http_request os server c nt2)"
  using aio_prepare_error_response_net aio_prepare_file_response_net
  by (simp add: process_http_request_def Let_def split: option.splits prod.splits)

lemma read_event_process:
  assumes tm: "strstr (c_str req) CRLFCRLF \<noteq> None"
    and ln: "0 < length req" "length req < kRequestBufferSize"
    and rd: "state conn = STATE_READING_REQUEST"
    and cap: "request_capacity conn = kRequestBufferSize" "request_size conn = 0"
    and rq: "recvq nt = Recvd req # rq"
  shows "handle_read_event os server conn nt =
      (case process_request os server
              (conn\<lparr>request_buffer := Some req, request_size := length req\<rparr>)
              (nt\<lparr>recvq := rq, log := log nt @ [IoRecv (fd conn) (int (length req)) False]\<rparr>) of
         (s, c, n) \<Rightarrow> (0, s, c, n))"
proof -
  define nt1 where "nt1 = nt\<lparr>recvq := rq,
      log := log nt @ [IoRecv (fd conn) (int (length req)) False]\<rparr>"
  define c1 where "c1 = conn\<lparr>request_buffer := Some req, request_size := length req\<rparr>"
  have tk: "take (request_capacity conn - request_size conn - 1) req = req"
    using cap ln by simp
  have rv: "sys_recv nt (fd conn) (request_capacity conn - request_size conn - 1) =
      ((int (length req), False, req), nt1)"
    using rq tk by (simp add: sys_recv_def Let_def nt1_def)
  obtain s c n where p: "process_request os server c1 nt1 = (s, c, n)"
    using prod_cases3 by blast
  have "handle_read_event os server conn nt = (0, s, c, n)"
    using rd rv cap ln tm p
    by (simp add: handle_read_event_def Let_def c1_def buf_bytes_Some)
  then show ?thesis unfolding c1_def [symmetric] nt1_def [symmetric] p by simp
qed

lemma client_read_process:
  assumes tm: "strstr (c_str req) CRLFCRLF \<noteq> None"
    and ln: "0 < length req" "length req < aio_kRequestBufferSize"
    and cap: "a_request_size client = 0"
    and rq: "recvq nt = Recvd req # rq"
  shows "handle_client_read os aserver client nt =
      (case process_http_request os aserver
              (client\<lparr>a_request_buffer := req, a_request_size := length req\<rparr>)
              (nt\<lparr>recvq := rq, log := log nt @ [IoRecv (a_fd client) (int (length req)) False]\<rparr>) of
         (c, n) \<Rightarrow> (aserver\<lparr>a_total_requests := a_total_requests aserver + 1\<rparr>, c, n))"
proof -
  define nt1 where "nt1 = nt\<lparr>recvq := rq,
      log := log nt @ [IoRecv (a_fd client) (int (length req)) False]\<rparr>"
  define c1 where "c1 = client\<lparr>a_request_buffer := req, a_request_size := length req\<rparr>"
  have tk: "take (aio_kRequestBufferSize - a_request_size client - 1) req = req"
    using cap ln by simp
  have rv: "sys_recv nt (a_fd client) (aio_kRequestBufferSize - a_request_size client - 1) =
      ((int (length req), False, req), nt1)"
    using rq tk by (simp add: sys_recv_def Let_def nt1_def)
  obtain c n where p: "process_http_request os aserver c1 nt1 = (c, n)"
    by (cases "process_http_request os aserver c1 nt1")
  have "handle_client_read os aserver client nt =
      (aserver\<lparr>a_total_requests := a_total_requests aserver + 1\<rparr>, c, n)"
    using rv cap ln tm p
    by (simp add: handle_client_read_def Let_def c1_def)
  then show ?thesis unfolding c1_def [symmetric] nt1_def [symmetric] p by simp
qed

lemma process_request_root:
  "(case process_request os server
           (conn\<lparr>request_buffer := Some (''GET / HTTP/1.1'' @ CRLFCRLF), request_size := 18\<rparr>) nt of
      (s', c', nt') \<Rightarrow> (s', c'\<lparr>request_buffer := None, request_size := 0\<rparr>, nt')) =
   (case process_request os server
           (conn\<lparr>request_buffer := Some (''GET /index.html HTTP/1.1'' @ CRLFCRLF),
                 request_size := 28\<rparr>) nt of
      (s', c', nt') \<Rightarrow> (s', c'\<lparr>request_buffer := None, request_size := 0\<rparr>, nt'))"
proof -
  let ?c1 = "conn\<lparr>request_buffer := Some (''GET / HTTP/1.1'' @ CRLFCRLF), request_size := 18\<rparr>"
  have "http_parse_request (buf_bytes (Some (''GET /index.html HTTP/1.1'' @ CRLFCRLF))) 28 =
        http_parse_request (buf_bytes (request_buffer ?c1)) (request_size ?c1)"
    using parse_root parse_index by (simp add: buf_bytes_def)
  from process_request_buffer [OF this, of os server nt]
  show "(case process_request os server ?c1 nt of
      (s', c', nt') \<Rightarrow> (s', c'\<lparr>request_buffer := None, request_size := 0\<rparr>, nt')) =
   (case process_request os server
           (conn\<lparr>request_buffer := Some (''GET /index.html HTTP/1.1'' @ CRLFCRLF),
                 request_size := 28\<rparr>) nt of
      (s', c', nt') \<Rightarrow> (s', c'\<lparr>request_buffer := None, request_size := 0\<rparr>, nt'))"
    by (simp split: prod.splits)
qed

lemma process_http_request_root:
  "(case process_http_request os aserver
           (client\<lparr>a_request_buffer := ''GET / HTTP/1.1'' @ CRLFCRLF, a_request_size := 18\<rparr>) nt of
      (c', nt') \<Rightarrow> (c'\<lparr>a_request_buffer := [], a_request_size := 0\<rparr>, nt')) =
   (case process_http_request os aserver
           (client\<lparr>a_request_buffer := ''GET /index.html HTTP/1.1'' @ CRLFCRLF,
                   a_request_size := 28\<rparr>) nt of
      (c', nt') \<Rightarrow> (c'\<lparr>a_request_buffer := [], a_request_size := 0\<rparr>, nt'))"
proof -
  let ?c1 = "client\<lparr>a_request_buffer := ''GET / HTTP/1.1'' @ CRLFCRLF, a_request_size := 18\<rparr>"
  have "http_parse_request (''GET /index.html HTTP/1.1'' @ CRLFCRLF) 28 =
        http_parse_request (a_request_buffer ?c1) (a_request_size ?c1)"
    using parse_root parse_index by simp
  from process_http_request_buffer [OF this, of os aserver nt]
  show "(case process_http_request os aserver ?c1 nt of
      (c', nt') \<Rightarrow> (c'\<lparr>a_request_buffer := [], a_request_size := 0\<rparr>, nt')) =
   (case process_http_request os aserver
           (client\<lparr>a_request_buffer := ''GET /index.html HTTP/1.1'' @ CRLFCRLF,
                   a_request_size := 28\<rparr>) nt of
      (c', nt') \<Rightarrow> (c'\<lparr>a_request_buffer := [], a_request_size := 0\<rparr>, nt'))"
    by simp
qed

lemma root_request_len:
  "length (''GET / HTTP/1.1'' @ CRLFCRLF) = 18"
  "length (''GET /index.html HTTP/1.1'' @ CRLFCRLF) = 28"
  by (simp_all add: CRLFCRLF_def)

lemma read_event_root:
  assumes rd: "state conn = STATE_READING_REQUEST"
    and cap: "request_capacity conn = kRequestBufferSize" "request_size conn = 0"
    and ra: "recvq na = Recvd (''GET / HTTP/1.1'' @ CRLFCRLF) # ra"
    and rb: "recvq nb = Recvd (''GET /index.html HTTP/1.1'' @ CRLFCRLF) # rb"
  shows "(case handle_read_event os server conn na of
            (rc, s, c, n) \<Rightarrow> (rc, s, c\<lparr>request_buffer := None, request_size := 0\<rparr>)) =
         (case handle_read_event os server conn nb of
            (rc, s, c, n) \<Rightarrow> (rc, s, c\<lparr>request_buffer := None, request_size := 0\<rparr>))"
proof -
  define A where "A = ''GET / HTTP/1.1'' @ CRLFCRLF"
  define B where "B = ''GET /index.html HTTP/1.1'' @ CRLFCRLF"
  define na1 where "na1 = na\<lparr>recvq := ra, log := log na @ [IoRecv (fd conn) 18 False]\<rparr>"
  define nb1 where "nb1 = nb\<lparr>recvq := rb, log := log nb @ [IoRecv (fd conn) 28 False]\<rparr>"
  define ca where "ca = conn\<lparr>request_buffer := Some A, request_size := 18\<rparr>"
  define cb where "cb = conn\<lparr>request_buffer := Some B, request_size := 28\<rparr>"
  have la: "length A = 18" and lb: "length B = 28"
    unfolding A_def B_def by (rule root_request_len)+
  have fa: "strstr (c_str A) CRLFCRLF \<noteq> None" "0 < length A" "length A < kRequestBufferSize"
    using index_request_facts(2-4) [of A] by (simp_all add: A_def kRequestBufferSize_def)
  have fb: "strstr (c_str B) CRLFCRLF \<noteq> None" "0 < length B" "length B < kRequestBufferSize"
    using index_request_facts(2-4) [of B] by (simp_all add: B_def kRequestBufferSize_def)
  obtain sa ca' na' where pa: "process_request os server ca na1 = (sa, ca', na')"
    using prod_cases3 by blast
  obtain sb cb' nb' where pb: "process_request os server cb nb1 = (sb, cb', nb')"
    using prod_cases3 by blast
  obtain sc cc' nc' where pc: "process_request os server cb na1 = (sc, cc', nc')"
    using prod_cases3 by blast
  have ha: "handle_read_event os server conn na = (0, sa, ca', na')"
    using read_event_process [OF fa rd cap ra [folded A_def], of os server] pa
    by (simp add: la ca_def na1_def)
  have hb: "handle_read_event os server conn nb = (0, sb, cb', nb')"
    using read_event_process [OF fb rd cap rb [folded B_def], of os server] pb
    by (simp add: lb cb_def nb1_def)
  from process_request_root [of os server conn na1] pa pc
  have 1: "sa = sc" "ca'\<lparr>request_buffer := None, request_size := 0\<rparr> =
      cc'\<lparr>request_buffer := None, request_size := 0\<rparr>"
    by (simp_all add: ca_def cb_def A_def B_def)
  from process_request_net [of os server cb na1 nb1] pb pc
  have 2: "sc = sb" "cc' = cb'" by simp_all
  show ?thesis unfolding ha hb using 1 2 by simp
qed

lemma client_read_root:
  assumes cap: "a_request_size client = 0"
    and ra: "recvq na = Recvd (''GET / HTTP/1.1'' @ CRLFCRLF) # ra"
    and rb: "recvq nb = Recvd (''GET /index.html HTTP/1.1'' @ CRLFCRLF) # rb"
  shows "(case handle_client_read os aserver client na of
            (s, c, n) \<Rightarrow> (s, c\<lparr>a_request_buffer := [], a_request_size := 0\<rparr>)) =
         (case handle_client_read os aserver client nb of
            (s, c, n) \<Rightarrow> (s, c\<lparr>a_request_buffer := [], a_request_size := 0\<rparr>))"
proof -
  define A where "A = ''GET / HTTP/1.1'' @ CRLFCRLF"
  define B where "B = ''GET /index.html HTTP/1.1'' @ CRLFCRLF"
  define na1 where "na1 = na\<lparr>recvq := ra, log := log na @ [IoRecv (a_fd client) 18 False]\<rparr>"
  define nb1 where "nb1 = nb\<lparr>recvq := rb, log := log nb @ [IoRecv (a_fd client) 28 False]\<rparr>"
  define ca where "ca = client\<lparr>a_request_buffer := A, a_request_size := 18\<rparr>"
  define cb where "cb = client\<lparr>a_request_buffer := B, a_request_size := 28\<rparr>"
  have la: "length A = 18" and lb: "length B = 28"
    unfolding A_def B_def by (rule root_request_len)+
  have fa: "strstr (c_str A) CRLFCRLF \<noteq> None" "0 < length A"
      "length A < aio_kRequestBufferSize"
    using index_request_facts(2-4) [of A] by (simp_all add: A_def aio_kRequestBufferSize_def)
  have fb: "strstr (c_str B) CRLFCRLF \<noteq> None" "0 < length B"
      "length B < aio_kRequestBufferSize"
    using index_request_facts(2-4) [of B] by (simp_all add: B_def aio_kRequestBufferSize_def)
  obtain ca' na' where pa: "process_http_request os aserver ca na1 = (ca', na')"
    by (cases "process_http_request os aserver ca na1")
  obtain cb' nb' where pb: "process_http_request os aserver cb nb1 = (cb', nb')"
    by (cases "process_http_request os aserver cb nb1")
  obtain cc' nc' where pc: "process_http_request os aserver cb na1 = (cc', nc')"
    by (cases "process_http_request os aserver cb na1")
  have ha: "handle_client_read os aserver client na =
      (aserver\<lparr>a_total_requests := a_total_requests aserver + 1\<rparr>, ca', na')"
    using client_read_process [OF fa cap ra [folded A_def], of os aserver] pa
    by (simp add: la ca_def na1_def)
  have hb: "handle_client_read os aserver client nb =
      (aserver\<lparr>a_total_requests := a_total_requests aserver + 1\<rparr>, cb', nb')"
    using client_read_process [OF fb cap rb [folded B_def], of os aserver] pb
    by (simp add: lb cb_def nb1_def)
  from process_http_request_root [of os aserver client na1] pa pc
  have 1: "ca'\<lparr>a_request_buffer := [], a_request_size := 0\<rparr> =
      cc'\<lparr>a_request_buffer := [], a_request_size := 0\<rparr>"
    by (simp add: ca_def cb_def A_def B_def)
  from process_http_request_net [of os aserver cb na1 nb1] pb pc
  have 2: "cc' = cb'" by simp
  show ?thesis unfolding ha hb using 1 2 by simp
qed

text \<open>
  Claim C9. The request \<open>GET / HTTP/1.1\<close> is served as the request
  \<open>GET /index.html HTTP/1.1\<close> is. For either request, each followed by the blank
  line: the parser returns the method \<open>GET\<close> and the path \<open>/index.html\<close>;
  \<open>process_request\<close> and \<open>process_http_request\<close> leave the same server, the same
  socket log and the same connection for the one as for the other, the request buffer
  apart; in either server and whatever the files under the document root, the read event
  that receives the one on a connection with an empty request buffer leaves the same
  server and the same connection (state, response header, file descriptor, offset and
  size) as the read event that receives the other; when \<open>/index.html\<close> is a regular file of contents \<open>data\<close> under the
  document root, the read event that receives the request counts it, opens the file and
  prepares the header \<open>200\<close> for it, in the kqueue server and in the select server;
  and the write events that follow put an initial part of that header and of
  \<open>data\<close> on the socket, the whole of both, before the connection is closed, when the
  socket takes at least one byte on every \<open>send\<close> and there are events enough.
\<close>

theorem root_is_index:
  assumes rq: "req = ''GET / HTTP/1.1'' @ CRLFCRLF \<or> req = ''GET /index.html HTTP/1.1'' @ CRLFCRLF"
    and c': "conn' = conn\<lparr>request_buffer := Some req, request_size := length req,
               file_fd := f, file_size := int (length data), file_offset := 0,
               response_buffer := Some hdr, response_size := length hdr,
               response_sent := 0, state := STATE_SENDING_HEADER\<rparr>"
    and cl': "client' = client\<lparr>a_request_buffer := req, a_request_size := length req,
               a_file_fd := f, a_file_size := int (length data), a_file_offset := 0,
               a_response_buffer := Some hdr, a_response_size := length hdr,
               a_response_sent := 0, a_state := AIO_STATE_SENDING_RESPONSE\<rparr>"
  shows
  "http_parse_request req (length req) =
     (1, zero_req\<lparr>complete := 1, req_method := ''GET'', path := ''/index.html''\<rparr>) \<and>
   (case process_request os server
           (conn\<lparr>request_buffer := Some (''GET / HTTP/1.1'' @ CRLFCRLF), request_size := 18\<rparr>) nt of
      (s', c', nt') \<Rightarrow> (s', c'\<lparr>request_buffer := None, request_size := 0\<rparr>, nt')) =
   (case process_request os server
           (conn\<lparr>request_buffer := Some (''GET /index.html HTTP/1.1'' @ CRLFCRLF),
                 request_size := 28\<rparr>) nt of
      (s', c', nt') \<Rightarrow> (s', c'\<lparr>request_buffer := None, request_size := 0\<rparr>, nt'))
   \<and>
   (case process_http_request os aserver
           (client\<lparr>a_request_buffer := ''GET / HTTP/1.1'' @ CRLFCRLF, a_request_size := 18\<rparr>) nt of
      (c', nt') \<Rightarrow> (c'\<lparr>a_request_buffer := [], a_request_size := 0\<rparr>, nt')) =
   (case process_http_request os aserver
           (client\<lparr>a_request_buffer := ''GET /index.html HTTP/1.1'' @ CRLFCRLF,
                   a_request_size := 28\<rparr>) nt of
      (c', nt') \<Rightarrow> (c'\<lparr>a_request_buffer := [], a_request_size := 0\<rparr>, nt')) \<and>
   (state conn = STATE_READING_REQUEST \<and> request_capacity conn = kRequestBufferSize \<and>
    request_size conn = 0 \<and>
    recvq na = Recvd (''GET / HTTP/1.1'' @ CRLFCRLF) # ra \<and>
    recvq nb = Recvd (''GET /index.html HTTP/1.1'' @ CRLFCRLF) # rb \<longrightarrow>
      (case handle_read_event os server conn na of
         (rc, s, c, n) \<Rightarrow> (rc, s, c\<lparr>request_buffer := None, request_size := 0\<rparr>)) =
      (case handle_read_event os server conn nb of
         (rc, s, c, n) \<Rightarrow> (rc, s, c\<lparr>request_buffer := None, request_size := 0\<rparr>))) \<and>
   (a_request_size client = 0 \<and>
    recvq na = Recvd (''GET / HTTP/1.1'' @ CRLFCRLF) # ra \<and>
    recvq nb = Recvd (''GET /index.html HTTP/1.1'' @ CRLFCRLF) # rb \<longrightarrow>
      (case handle_client_read os aserver client na of
         (s, c, n) \<Rightarrow> (s, c\<lparr>a_request_buffer := [], a_request_size := 0\<rparr>)) =
      (case handle_client_read os aserver client nb of
         (s, c, n) \<Rightarrow> (s, c\<lparr>a_request_buffer := [], a_request_size := 0\<rparr>))) \<and>
   (index_file os (doc_root server) kPathBufferSize fp f data hdr \<and>
    state conn = STATE_READING_REQUEST \<and> request_capacity conn = kRequestBufferSize \<and>
    request_size conn = 0 \<and> recvq nt = Recvd req # rest \<longrightarrow>
      handle_read_event os server conn nt =
        (0, server\<lparr>total_requests := total_requests server + 1\<rparr>, conn',
         nt\<lparr>recvq := rest, log := log nt @ [IoRecv (fd conn) (int (length req)) False]\<rparr>)) \<and>
   (index_file os (doc_root server) kPathBufferSize fp f data hdr \<and>
    ci < length (connections server') \<and> connections server' ! ci = conn' \<and>
    0 \<le> fd conn \<and> list_all accepts (sendq nt') \<longrightarrow>
      (\<exists>j. wire (fd conn) (log (snd (client_events ev os EVFILT_WRITE ci (server', nt')))) =
            wire (fd conn) (log nt') @ take j (hdr @ data)) \<and>
      (length hdr + length data \<le> length (sendq nt') \<and> length hdr + length data \<le> ev \<longrightarrow>
         fd (connections (fst (client_events ev os EVFILT_WRITE ci (server', nt'))) ! ci) = -1 \<and>
         wire (fd conn) (log (snd (client_events ev os EVFILT_WRITE ci (server', nt')))) =
           wire (fd conn) (log nt') @ hdr @ data)) \<and>
   (index_file os (a_doc_root aserver) aio_kPathBufferSize fp f data hdr \<and>
    a_request_size client = 0 \<and> recvq ant = Recvd req # arest \<longrightarrow>
      handle_client_read os aserver client ant =
        (aserver\<lparr>a_total_requests := a_total_requests aserver + 1\<rparr>, client',
         ant\<lparr>recvq := arest,
             log := log ant @ [IoRecv (a_fd client) (int (length req)) False]\<rparr>)) \<and>
   (index_file os (a_doc_root aserver) aio_kPathBufferSize fp f data hdr \<and>
    0 \<le> a_fd client \<and> list_all accepts (sendq ant') \<longrightarrow>
      (\<exists>j. wire (a_fd client) (log (snd (snd (aio_write_events ev os aserver' client' ant')))) =
            wire (a_fd client) (log ant') @ take j (hdr @ data)) \<and>
      (length hdr + length data \<le> length (sendq ant') \<and> length hdr + length data < ev \<longrightarrow>
         a_fd (fst (snd (aio_write_events ev os aserver' client' ant'))) < 0 \<and>
         wire (a_fd client) (log (snd (snd (aio_write_events ev os aserver' client' ant')))) =
           wire (a_fd client) (log ant') @ hdr @ data))"
proof -
  note rf = index_request_facts [OF rq]
  have q: "(case process_request os server
           (conn\<lparr>request_buffer := Some (''GET / HTTP/1.1'' @ CRLFCRLF), request_size := 18\<rparr>) nt of
      (s', c', nt') \<Rightarrow> (s', c'\<lparr>request_buffer := None, request_size := 0\<rparr>, nt')) =
   (case process_request os server
           (conn\<lparr>request_buffer := Some (''GET /index.html HTTP/1.1'' @ CRLFCRLF),
                 request_size := 28\<rparr>) nt of
      (s', c', nt') \<Rightarrow> (s', c'\<lparr>request_buffer := None, request_size := 0\<rparr>, nt'))
   \<and>
   (case process_http_request os aserver
           (client\<lparr>a_request_buffer := ''GET / HTTP/1.1'' @ CRLFCRLF, a_request_size := 18\<rparr>) nt of
      (c', nt') \<Rightarrow> (c'\<lparr>a_request_buffer := [], a_request_size := 0\<rparr>, nt')) =
   (case process_http_request os aserver
           (client\<lparr>a_request_buffer := ''GET /index.html HTTP/1.1'' @ CRLFCRLF,
                   a_request_size := 28\<rparr>) nt of
      (c', nt') \<Rightarrow> (c'\<lparr>a_request_buffer := [], a_request_size := 0\<rparr>, nt'))"
  proof
    let ?c1 = "conn\<lparr>request_buffer := Some (''GET / HTTP/1.1'' @ CRLFCRLF), request_size := 18\<rparr>"
    have "http_parse_request (buf_bytes (Some (''GET /index.html HTTP/1.1'' @ CRLFCRLF))) 28 =
          http_parse_request (buf_bytes (request_buffer ?c1)) (request_size ?c1)"
      using parse_root parse_index by (simp add: buf_bytes_def)
    from process_request_buffer [OF this, of os server nt]
    show "(case process_request os server ?c1 nt of
        (s', c', nt') \<Rightarrow> (s', c'\<lparr>request_buffer := None, request_size := 0\<rparr>, nt')) =
     (case process_request os server
             (conn\<lparr>request_buffer := Some (''GET /index.html HTTP/1.1'' @ CRLFCRLF),
                   request_size := 28\<rparr>) nt of
        (s', c', nt') \<Rightarrow> (s', c'\<lparr>request_buffer := None, request_size := 0\<rparr>, nt'))"
      by (simp split: prod.splits)
  next
    let ?c1 = "client\<lparr>a_request_buffer := ''GET / HTTP/1.1'' @ CRLFCRLF, a_request_size := 18\<rparr>"
    have "http_parse_request (''GET /index.html HTTP/1.1'' @ CRLFCRLF) 28 =
          http_parse_request (a_request_buffer ?c1) (a_request_size ?c1)"
      using parse_root parse_index by simp
    from process_http_request_buffer [OF this, of os aserver nt]
    show "(case process_http_request os aserver ?c1 nt of
        (c', nt') \<Rightarrow> (c'\<lparr>a_request_buffer := [], a_request_size := 0\<rparr>, nt')) =
     (case process_http_request os aserver
             (client\<lparr>a_request_buffer := ''GET /index.html HTTP/1.1'' @ CRLFCRLF,
                     a_request_size := 28\<rparr>) nt of
        (c', nt') \<Rightarrow> (c'\<lparr>a_request_buffer := [], a_request_size := 0\<rparr>, nt'))"
      by simp
  qed
  have e1: "state conn = STATE_READING_REQUEST \<and> request_capacity conn = kRequestBufferSize \<and>
    request_size conn = 0 \<and>
    recvq na = Recvd (''GET / HTTP/1.1'' @ CRLFCRLF) # ra \<and>
    recvq nb = Recvd (''GET /index.html HTTP/1.1'' @ CRLFCRLF) # rb \<longrightarrow>
      (case handle_read_event os server conn na of
         (rc, s, c, n) \<Rightarrow> (rc, s, c\<lparr>request_buffer := None, request_size := 0\<rparr>)) =
      (case handle_read_event os server conn nb of
         (rc, s, c, n) \<Rightarrow> (rc, s, c\<lparr>request_buffer := None, request_size := 0\<rparr>))"
  proof
    assume h: "state conn = STATE_READING_REQUEST \<and> request_capacity conn = kRequestBufferSize \<and>
    request_size conn = 0 \<and>
    recvq na = Recvd (''GET / HTTP/1.1'' @ CRLFCRLF) # ra \<and>
    recvq nb = Recvd (''GET /index.html HTTP/1.1'' @ CRLFCRLF) # rb"
    show "(case handle_read_event os server conn na of
         (rc, s, c, n) \<Rightarrow> (rc, s, c\<lparr>request_buffer := None, request_size := 0\<rparr>)) =
      (case handle_read_event os server conn nb of
         (rc, s, c, n) \<Rightarrow> (rc, s, c\<lparr>request_buffer := None, request_size := 0\<rparr>))"
      by (rule read_event_root [of conn na ra nb rb]) (use h in simp_all)
  qed
  have e2: "a_request_size client = 0 \<and>
    recvq na = Recvd (''GET / HTTP/1.1'' @ CRLFCRLF) # ra \<and>
    recvq nb = Recvd (''GET /index.html HTTP/1.1'' @ CRLFCRLF) # rb \<longrightarrow>
      (case handle_client_read os aserver client na of
         (s, c, n) \<Rightarrow> (s, c\<lparr>a_request_buffer := [], a_request_size := 0\<rparr>)) =
      (case handle_client_read os aserver client nb of
         (s, c, n) \<Rightarrow> (s, c\<lparr>a_request_buffer := [], a_request_size := 0\<rparr>))"
  proof
    assume h: "a_request_size client = 0 \<and>
    recvq na = Recvd (''GET / HTTP/1.1'' @ CRLFCRLF) # ra \<and>
    recvq nb = Recvd (''GET /index.html HTTP/1.1'' @ CRLFCRLF) # rb"
    show "(case handle_client_read os aserver client na of
         (s, c, n) \<Rightarrow> (s, c\<lparr>a_request_buffer := [], a_request_size := 0\<rparr>)) =
      (case handle_client_read os aserver client nb of
         (s, c, n) \<Rightarrow> (s, c\<lparr>a_request_buffer := [], a_request_size := 0\<rparr>))"
      by (rule client_read_root [of client na ra nb rb]) (use h in simp_all)
  qed
  have r: "index_file os (doc_root server) kPathBufferSize fp f data hdr \<and>
    state conn = STATE_READING_REQUEST \<and> request_capacity conn = kRequestBufferSize \<and>
    request_size conn = 0 \<and> recvq nt = Recvd req # rest \<longrightarrow>
      handle_read_event os server conn nt =
        (0, server\<lparr>total_requests := total_requests server + 1\<rparr>, conn',
         nt\<lparr>recvq := rest, log := log nt @ [IoRecv (fd conn) (int (length req)) False]\<rparr>)"
  proof
    assume h: "index_file os (doc_root server) kPathBufferSize fp f data hdr \<and>
      state conn = STATE_READING_REQUEST \<and> request_capacity conn = kRequestBufferSize \<and>
      request_size conn = 0 \<and> recvq nt = Recvd req # rest"
    then obtain st st2 where os1: "os_stat os fp = Some st" "st_is_reg st"
      "os_fstat os f = Some st2" "st_size st2 = int (length data)"
      by (auto simp: index_file_def)
    have ln: "length req < kRequestBufferSize" using rf(4) by (simp add: kRequestBufferSize_def)
    show "handle_read_event os server conn nt =
        (0, server\<lparr>total_requests := total_requests server + 1\<rparr>, conn',
         nt\<lparr>recvq := rest, log := log nt @ [IoRecv (fd conn) (int (length req)) False]\<rparr>)"
      unfolding c'
      by (rule read_event_200 [where pth = "''/index.html''", OF rf(1) _ rf(2) rf(3) ln _ _ _ _ _ os1(1,2) _ _ os1(3,4)])
         (use h in \<open>simp_all add: index_file_def\<close>)
  qed
  have s: "index_file os (doc_root server) kPathBufferSize fp f data hdr \<and>
    ci < length (connections server') \<and> connections server' ! ci = conn' \<and>
    0 \<le> fd conn \<and> list_all accepts (sendq nt') \<longrightarrow>
      (\<exists>j. wire (fd conn) (log (snd (client_events ev os EVFILT_WRITE ci (server', nt')))) =
            wire (fd conn) (log nt') @ take j (hdr @ data)) \<and>
      (length hdr + length data \<le> length (sendq nt') \<and> length hdr + length data \<le> ev \<longrightarrow>
         fd (connections (fst (client_events ev os EVFILT_WRITE ci (server', nt'))) ! ci) = -1 \<and>
         wire (fd conn) (log (snd (client_events ev os EVFILT_WRITE ci (server', nt')))) =
           wire (fd conn) (log nt') @ hdr @ data)"
  proof
    assume h: "index_file os (doc_root server) kPathBufferSize fp f data hdr \<and>
      ci < length (connections server') \<and> connections server' ! ci = conn' \<and>
      0 \<le> fd conn \<and> list_all accepts (sendq nt')"
    then have fl: "\<forall>count off. 0 \<le> off \<longrightarrow>
         os_pread os f count off = Some (take count (drop (nat off) data))"
      and f0: "0 \<le> f"
      and b: "http_build_200 kHeaderBufferSize (int (length data)) (http_guess_type fp) = Some hdr"
      by (simp_all add: index_file_def)
    have hn: "hdr \<noteq> []" using build_200_props [OF b] by simp
    have sd: "sending (fd conn) f hdr data 0 conn'"
      using f0 hn by (simp add: sending_def c')
    from file_response_sent [OF fl _ _ sd, of ci server' nt' ev] h
    show "(\<exists>j. wire (fd conn) (log (snd (client_events ev os EVFILT_WRITE ci (server', nt')))) =
            wire (fd conn) (log nt') @ take j (hdr @ data)) \<and>
      (length hdr + length data \<le> length (sendq nt') \<and> length hdr + length data \<le> ev \<longrightarrow>
         fd (connections (fst (client_events ev os EVFILT_WRITE ci (server', nt'))) ! ci) = -1 \<and>
         wire (fd conn) (log (snd (client_events ev os EVFILT_WRITE ci (server', nt')))) =
           wire (fd conn) (log nt') @ hdr @ data)"
      by simp
  qed
  have t: "index_file os (a_doc_root aserver) aio_kPathBufferSize fp f data hdr \<and>
    a_request_size client = 0 \<and> recvq ant = Recvd req # arest \<longrightarrow>
      handle_client_read os aserver client ant =
        (aserver\<lparr>a_total_requests := a_total_requests aserver + 1\<rparr>, client',
         ant\<lparr>recvq := arest,
             log := log ant @ [IoRecv (a_fd client) (int (length req)) False]\<rparr>)"
  proof
    assume h: "index_file os (a_doc_root aserver) aio_kPathBufferSize fp f data hdr \<and>
      a_request_size client = 0 \<and> recvq ant = Recvd req # arest"
    then obtain st st2 where os1: "os_stat os fp = Some st" "st_is_reg st"
      "os_fstat os f = Some st2" "st_size st2 = int (length data)"
      by (auto simp: index_file_def)
    have ln: "length req < aio_kRequestBufferSize"
      using rf(4) by (simp add: aio_kRequestBufferSize_def)
    have b: "http_build_200 aio_kHeaderBufferSize (int (length data)) (http_guess_type fp) =
        Some hdr"
      using h by (simp add: index_file_def kHeaderBufferSize_def aio_kHeaderBufferSize_def)
    show "handle_client_read os aserver client ant =
        (aserver\<lparr>a_total_requests := a_total_requests aserver + 1\<rparr>, client',
         ant\<lparr>recvq := arest,
             log := log ant @ [IoRecv (a_fd client) (int (length req)) False]\<rparr>)"
      unfolding cl'
      by (rule client_read_200 [where pth = "''/index.html''", OF rf(1) _ rf(2) rf(3) ln _ _ _ os1(1,2) _ _ os1(3,4) b])
         (use h in \<open>simp_all add: index_file_def\<close>)
  qed
  have u: "index_file os (a_doc_root aserver) aio_kPathBufferSize fp f data hdr \<and>
    0 \<le> a_fd client \<and> list_all accepts (sendq ant') \<longrightarrow>
      (\<exists>j. wire (a_fd client) (log (snd (snd (aio_write_events ev os aserver' client' ant')))) =
            wire (a_fd client) (log ant') @ take j (hdr @ data)) \<and>
      (length hdr + length data \<le> length (sendq ant') \<and> length hdr + length data < ev \<longrightarrow>
         a_fd (fst (snd (aio_write_events ev os aserver' client' ant'))) < 0 \<and>
         wire (a_fd client) (log (snd (snd (aio_write_events ev os aserver' client' ant')))) =
           wire (a_fd client) (log ant') @ hdr @ data)"
  proof
    assume h: "index_file os (a_doc_root aserver) aio_kPathBufferSize fp f data hdr \<and>
      0 \<le> a_fd client \<and> list_all accepts (sendq ant')"
    then have fl: "\<forall>count off. 0 \<le> off \<longrightarrow>
         os_pread os f count off = Some (take count (drop (nat off) data))"
      and f0: "0 \<le> f"
      and b: "http_build_200 kHeaderBufferSize (int (length data)) (http_guess_type fp) = Some hdr"
      and q: "list_all accepts (sendq ant')"
      by (simp_all add: index_file_def)
    have hn: "hdr \<noteq> []" using build_200_props [OF b] by simp
    have sd: "aio_sending (a_fd client) f hdr data 0 client'"
      using f0 hn h by (simp add: aio_sending_def cl')
    from aio_write_events_prefix [OF fl sd q, of ev aserver']
    have 1: "\<exists>j. wire (a_fd client) (log (snd (snd (aio_write_events ev os aserver' client' ant')))) =
            wire (a_fd client) (log ant') @ take j (hdr @ data)" by simp
    have 2: "length hdr + length data \<le> length (sendq ant') \<and> length hdr + length data < ev \<longrightarrow>
         a_fd (fst (snd (aio_write_events ev os aserver' client' ant'))) < 0 \<and>
         wire (a_fd client) (log (snd (snd (aio_write_events ev os aserver' client' ant')))) =
           wire (a_fd client) (log ant') @ hdr @ data"
    proof
      assume a: "length hdr + length data \<le> length (sendq ant') \<and> length hdr + length data < ev"
      from aio_write_events_complete [OF fl sd q, of ev aserver'] a
      obtain s2 c2 n2 where "aio_write_events ev os aserver' client' ant' = (s2, c2, n2)"
        "a_fd c2 < 0" "wire (a_fd client) (log n2) = wire (a_fd client) (log ant') @ drop 0 (hdr @ data)"
        by auto
      then show "a_fd (fst (snd (aio_write_events ev os aserver' client' ant'))) < 0 \<and>
         wire (a_fd client) (log (snd (snd (aio_write_events ev os aserver' client' ant')))) =
           wire (a_fd client) (log ant') @ hdr @ data"
        by simp
    qed
    from 1 2 show "(\<exists>j. wire (a_fd client) (log (snd (snd (aio_write_events ev os aserver' client' ant')))) =
            wire (a_fd client) (log ant') @ take j (hdr @ data)) \<and>
      (length hdr + length data \<le> length (sendq ant') \<and> length hdr + length data < ev \<longrightarrow>
         a_fd (fst (snd (aio_write_events ev os aserver' client' ant'))) < 0 \<and>
         wire (a_fd client) (log (snd (snd (aio_write_events ev os aserver' client' ant')))) =
           wire (a_fd client) (log ant') @ hdr @ data)"
      by blast
  qed
  from rf(1) q e1 e2 r s t u show ?thesis by blast
qed

lemma ex_root_request_len: "length ex_root_request = 18"
  by (simp add: ex_root_request_def CRLFCRLF_def)

text \<open>
  The request for \<open>/\<close> in the small world: each server answers with the header and
  the 37 bytes of \<open>index.html\<close>, and holds what it holds after the request for
  \<open>/index.html\<close>, the request buffer apart.
\<close>

theorem root_is_index_witness:
  "http_parse_request ex_root_request 18 =
     (1, zero_req\<lparr>complete := 1, req_method := ''GET'', path := ''/index.html''\<rparr>) \<and>
   connections (fst ex_root) ! 0 =
     (connections (fst ex_requested) ! 0)
       \<lparr>request_buffer := Some ex_root_request, request_size := 18\<rparr> \<and>
   file_fd (connections (fst ex_root) ! 0) = 7 \<and>
   response_buffer (connections (fst ex_root) ! 0) = Some ex_index_header \<and>
   total_requests (fst ex_root) = 1 \<and>
   fd (connections (fst ex_root_sent) ! 0) = -1 \<and>
   wire 5 (log (snd ex_root_sent)) = ex_index_header @ ex_index \<and>
   fst (snd ex_aio_root) =
     (fst (snd ex_aio_requested))
       \<lparr>a_request_buffer := ex_root_request, a_request_size := 18\<rparr> \<and>
   a_response_buffer (fst (snd ex_aio_root)) = Some ex_index_header \<and>
   a_total_requests (fst ex_aio_root) = 1 \<and>
   a_fd (fst (snd ex_aio_root_sent)) < 0 \<and>
   wire 5 (log (snd (snd ex_aio_root_sent))) = ex_index_header @ ex_index"
proof -
  define conn where "conn = connections (fst ex_accepted) ! 0"
  define client where "client = clients (fst ex_aio_full) ! 0"
  define conn' where "conn' = conn\<lparr>request_buffer := Some ex_root_request,
               request_size := length ex_root_request,
               file_fd := 7, file_size := int (length ex_index), file_offset := 0,
               response_buffer := Some ex_index_header,
               response_size := length ex_index_header,
               response_sent := 0, state := STATE_SENDING_HEADER\<rparr>"
  define client' where "client' = client\<lparr>a_request_buffer := ex_root_request,
               a_request_size := length ex_root_request,
               a_file_fd := 7, a_file_size := int (length ex_index), a_file_offset := 0,
               a_response_buffer := Some ex_index_header,
               a_response_size := length ex_index_header,
               a_response_sent := 0, a_state := AIO_STATE_SENDING_RESPONSE\<rparr>"
  define nt where "nt = (snd ex_accepted)\<lparr>recvq := [Recvd ex_root_request], sendq := []\<rparr>"
  define ant where "ant = ex_net\<lparr>recvq := [Recvd ex_root_request]\<rparr>"
  have l: "length ex_root_request = 18" by (rule ex_root_request_len)
  have conn: "conn = zero_connection\<lparr>fd := 5, file_fd := -1, request_buffer := Some [],
           request_capacity := kRequestBufferSize\<rparr>"
    by (simp add: conn_def ex_accepted_eq)
  have client: "client = (reset_client zero_client)\<lparr>a_fd := 5\<rparr>"
    by (simp add: client_def ex_aio_full_eq)
  have rq: "ex_root_request = ''GET / HTTP/1.1'' @ CRLFCRLF \<or>
      ex_root_request = ''GET /index.html HTTP/1.1'' @ CRLFCRLF"
    by (simp add: ex_root_request_def)
  have os: "(\<exists>st. os_stat ex_os ''/var/www/index.html'' = Some st \<and> st_is_reg st)"
    "os_open ex_os ''/var/www/index.html'' = 7"
    "(\<exists>st. os_fstat ex_os 7 = Some st \<and> st_size st = int (length ex_index))"
    "\<forall>count off. 0 \<le> off \<longrightarrow>
       os_pread ex_os 7 count off = Some (take count (drop (nat off) ex_index))"
    "os_malloc_ok ex_os" "os_kevent_ok ex_os" "os_path_max ex_os = 1024"
    by (simp_all add: ex_os_def ex_index_len)
  have b: "http_build_200 kHeaderBufferSize (int (length ex_index))
      (http_guess_type ''/var/www/index.html'') = Some ex_index_header"
    using build_200_index_eq by (simp add: guess_index ex_index_len)
  have dr: "doc_root (fst ex_accepted) = ''/var/www''"
    "a_doc_root (fst ex_aio_full) = ''/var/www''"
    by (simp_all add: ex_accepted_eq ex_aio_full_eq)
  have ix: "index_file ex_os (doc_root (fst ex_accepted)) kPathBufferSize
      ''/var/www/index.html'' 7 ex_index ex_index_header"
    unfolding index_file_def dr using safe_join_index os b by simp
  have aix: "index_file ex_os (a_doc_root (fst ex_aio_full)) aio_kPathBufferSize
      ''/var/www/index.html'' 7 ex_index ex_index_header"
    unfolding index_file_def dr using aio_safe_join_index os b by simp
  note t = root_is_index [OF rq conn'_def client'_def,
      where os = ex_os and server = "fst ex_accepted" and nt = nt and rest = "[]"
        and fp = "''/var/www/index.html''"
        and ci = 0 and server' = "fst ex_root" and ev = 146
        and nt' = "(snd ex_root)\<lparr>recvq := [], sendq := replicate 146 (Sent 1)\<rparr>"
        and aserver = "fst ex_aio_full" and ant = ant and arest = "[]"
        and aserver' = "fst ex_aio_root"
        and ant' = "(snd (snd ex_aio_root))\<lparr>sendq := replicate 146 (Sent 1)\<rparr>"]
  note a = conjunct1 [OF t]
  note t5 = conjunct2 [OF conjunct2 [OF conjunct2 [OF conjunct2 [OF conjunct2 [OF t]]]]]
  note d = conjunct1 [OF t5]
  note e = conjunct1 [OF conjunct2 [OF t5]]
  note f = conjunct1 [OF conjunct2 [OF conjunct2 [OF t5]]]
  note g = conjunct2 [OF conjunct2 [OF conjunct2 [OF t5]]]
  have p: "http_parse_request ex_root_request 18 =
     (1, zero_req\<lparr>complete := 1, req_method := ''GET'', path := ''/index.html''\<rparr>)"
    using a unfolding l .
  have hd: "index_file ex_os (doc_root (fst ex_accepted)) kPathBufferSize
        ''/var/www/index.html'' 7 ex_index ex_index_header \<and>
      state conn = STATE_READING_REQUEST \<and> request_capacity conn = kRequestBufferSize \<and>
      request_size conn = 0 \<and> recvq nt = Recvd ex_root_request # []"
    using ix by (simp add: conn zero_connection_def nt_def)
  have rd: "handle_read_event ex_os (fst ex_accepted) conn nt =
      (0, (fst ex_accepted)\<lparr>total_requests := total_requests (fst ex_accepted) + 1\<rparr>, conn',
       nt\<lparr>recvq := [], log := log nt @ [IoRecv (fd conn) (int (length ex_root_request)) False]\<rparr>)"
    by (rule mp [OF d hd])
  have el: "ex_root =
      ((fst ex_accepted)\<lparr>total_requests := total_requests (fst ex_accepted) + 1,
          connections := (connections (fst ex_accepted))[0 := conn']\<rparr>,
       nt\<lparr>recvq := [], log := log nt @ [IoRecv 5 18 False]\<rparr>)"
    using rd
    by (simp add: ex_root_def client_event_def conn_def [symmetric] nt_def [symmetric] conn l)
  have c0: "connections (fst ex_root) ! 0 = conn'" by (simp add: el ex_accepted_eq)
  have lg0: "wire 5 (log (snd ex_root)) = []"
    by (simp add: el nt_def ex_accepted_eq ex_net_def)
  have acc: "list_all accepts (replicate 146 (Sent 1))" by (simp add: list_all_length)
  have he: "index_file ex_os (doc_root (fst ex_accepted)) kPathBufferSize
        ''/var/www/index.html'' 7 ex_index ex_index_header \<and>
      0 < length (connections (fst ex_root)) \<and> connections (fst ex_root) ! 0 = conn' \<and>
      0 \<le> fd conn \<and>
      list_all accepts (sendq ((snd ex_root)\<lparr>recvq := [], sendq := replicate 146 (Sent 1)\<rparr>))"
    using c0 acc ix by (simp add: el ex_accepted_eq conn zero_connection_def)
  have sent: "fd (connections (fst ex_root_sent) ! 0) = -1 \<and>
      wire 5 (log (snd ex_root_sent)) = ex_index_header @ ex_index"
    using mp [OF e he] lg0
    by (simp add: ex_root_sent_def ex_index_header_len ex_index_len conn zero_connection_def)
  have c1: "conn' = (connections (fst ex_requested) ! 0)
       \<lparr>request_buffer := Some ex_root_request, request_size := 18\<rparr>"
    by (simp add: conn'_def conn_def ex_requested_eq ex_accepted_eq l ex_index_len)
  have hf: "index_file ex_os (a_doc_root (fst ex_aio_full)) aio_kPathBufferSize
        ''/var/www/index.html'' 7 ex_index ex_index_header \<and>
      a_request_size client = 0 \<and> recvq ant = Recvd ex_root_request # []"
    using aix by (simp add: client reset_client_def zero_client_def ant_def)
  have al: "ex_aio_root =
      ((fst ex_aio_full)\<lparr>a_total_requests := a_total_requests (fst ex_aio_full) + 1\<rparr>, client',
       ant\<lparr>recvq := [],
           log := log ant @ [IoRecv (a_fd client) (int (length ex_root_request)) False]\<rparr>)"
    using mp [OF f hf] by (simp add: ex_aio_root_def client_def ant_def)
  have alg: "wire 5 (log (snd (snd ex_aio_root))) = []" "a_fd client = 5"
    by (simp_all add: al ant_def ex_net_def client)
  have hg: "index_file ex_os (a_doc_root (fst ex_aio_full)) aio_kPathBufferSize
        ''/var/www/index.html'' 7 ex_index ex_index_header \<and>
      0 \<le> a_fd client \<and>
      list_all accepts (sendq ((snd (snd ex_aio_root))\<lparr>sendq := replicate 146 (Sent 1)\<rparr>))"
    using acc aix by (simp add: client)
  have asent: "a_fd (fst (snd ex_aio_root_sent)) < 0 \<and>
      wire 5 (log (snd (snd ex_aio_root_sent))) = ex_index_header @ ex_index"
    using mp [OF g hg] alg
    by (simp add: ex_aio_root_sent_def al ex_index_header_len ex_index_len)
  have c2: "client' = (fst (snd ex_aio_requested))
       \<lparr>a_request_buffer := ex_root_request, a_request_size := 18\<rparr>"
    by (simp add: client'_def client_def ex_aio_requested_eq l ex_index_len)
  have k1: "file_fd conn' = 7" "response_buffer conn' = Some ex_index_header"
    "a_response_buffer client' = Some ex_index_header"
    by (simp_all add: conn'_def client'_def)
  have k2: "total_requests (fst ex_root) = 1" "a_total_requests (fst ex_aio_root) = 1"
    by (simp_all add: el al ex_accepted_eq ex_aio_full_eq)
  have k3: "fst (snd ex_aio_root) = client'" by (simp add: al)
  show ?thesis
    unfolding c0 k3 using p c1 c2 k1 k2 sent asent by simp
qed

end
